theory Spec2Isabelle
  imports Main "HOL-Library.Word"
begin

unbundle bit_operations_syntax

section \<open>Error numbers and the checker macros\<close>

type_synonym byte = "8 word"
type_synonym u32 = "32 word"

text \<open>The \<open>errno\<close> values (Linux) that the server names itself.\<close>

definition EINVAL :: int where "EINVAL = 22"
definition EAGAIN :: int where "EAGAIN = 11"
definition ENOMEM :: int where "ENOMEM = 12"
definition EFAULT :: int where "EFAULT = 14"

text \<open>
  Modelled from the spec: the macros \<open>CKINT\<close> and \<open>CKNULL\<close> of \<open>ret_checkers.h\<close>,
  which is not among the sources. \<open>CKINT(x)\<close> stores the value of \<open>x\<close> in the
  local \<open>ret\<close> and jumps to the label \<open>out\<close> when it is negative (``any
  failure is fatal: log, tear down, return error''); \<open>CKNULL(p, r)\<close> sets
  \<open>ret = r\<close> and jumps to \<open>out\<close> when \<open>p\<close> is \<open>NULL\<close>.
\<close>

definition CKINT_fails :: "int \<Rightarrow> bool" where
  "CKINT_fails ret = (ret < 0)"

section \<open>The frame envelope\<close>

text \<open>
  Modelled from the spec: \<open>le_bswap32\<close> of \<open>conv_be_le.h\<close> and the two header
  structs of \<open>esdm_rpc_protocol.h\<close>, which are not among the sources. All
  header fields are 32-bit values sent little-endian whatever the host's byte
  order; the client-to-server header is \<open>{method_index, message_length,
  request_id}\<close>, the server-to-client header \<open>{status_code, method_index,
  message_length, request_id}\<close>. A header struct in memory whose fields went
  through \<open>le_bswap32\<close> is therefore the list of the fields' little-endian
  bytes.
\<close>

definition put_le32 :: "u32 \<Rightarrow> byte list" where
  "put_le32 w = [ucast w, ucast (drop_bit 8 w), ucast (drop_bit 16 w), ucast (drop_bit 24 w)]"

definition get_le32 :: "byte list \<Rightarrow> u32" where
  "get_le32 bs =
     (ucast (bs ! 0)) OR push_bit 8 (ucast (bs ! 1)) OR
     push_bit 16 (ucast (bs ! 2)) OR push_bit 24 (ucast (bs ! 3))"

record cs_header =
  cs_method_index :: u32
  cs_message_length :: u32
  cs_request_id :: u32

record sc_header =
  sc_status_code :: u32
  sc_method_index :: u32
  sc_message_length :: u32
  sc_request_id :: u32

text \<open>
  Modelled from the spec: \<open>sizeof(struct esdm_rpc_proto_cs)\<close>, which is the
  size of the client-to-server header (the payload is a flexible array behind
  it), and \<open>sizeof(struct esdm_rpc_proto_sc_header)\<close>: three and four 32-bit
  fields.
\<close>

definition CS_HEADER_SIZE :: nat where "CS_HEADER_SIZE = 12"
definition SC_HEADER_SIZE :: nat where "SC_HEADER_SIZE = 16"

text \<open>
  Modelled from the spec: the two status codes of a reply, \<open>SUCCESS\<close> and
  \<open>SERVICE_FAILED\<close>, whose declaration is not among the sources; the values
  are those of the enumeration of protobuf-c-rpc.
\<close>

definition PROTOBUF_C_RPC_STATUS_CODE_SUCCESS :: u32 where
  "PROTOBUF_C_RPC_STATUS_CODE_SUCCESS = 0"
definition PROTOBUF_C_RPC_STATUS_CODE_SERVICE_FAILED :: u32 where
  "PROTOBUF_C_RPC_STATUS_CODE_SERVICE_FAILED = 1"

definition sc_header_bytes :: "sc_header \<Rightarrow> byte list" where
  "sc_header_bytes h =
     put_le32 (sc_status_code h) @ put_le32 (sc_method_index h) @
     put_le32 (sc_message_length h) @ put_le32 (sc_request_id h)"

definition sc_header_of_bytes :: "byte list \<Rightarrow> sc_header" where
  "sc_header_of_bytes bs =
     \<lparr>sc_status_code = get_le32 (take 4 bs),
      sc_method_index = get_le32 (take 4 (drop 4 bs)),
      sc_message_length = get_le32 (take 4 (drop 8 bs)),
      sc_request_id = get_le32 (take 4 (drop 12 bs))\<rparr>"

text \<open>
  The header as the server finds it at the start of its receive buffer once
  the three fields have been converted by \<open>le_bswap32\<close>. The buffer is longer
  than the header, so every byte read here exists.
\<close>

definition cs_header_of_bytes :: "byte list \<Rightarrow> cs_header" where
  "cs_header_of_bytes bs =
     \<lparr>cs_method_index = get_le32 (take 4 bs),
      cs_message_length = get_le32 (take 4 (drop 4 bs)),
      cs_request_id = get_le32 (take 4 (drop 8 bs))\<rparr>"

definition cs_header_bytes :: "cs_header \<Rightarrow> byte list" where
  "cs_header_bytes h =
     put_le32 (cs_method_index h) @ put_le32 (cs_message_length h) @
     put_le32 (cs_request_id h)"

section \<open>The connected socket\<close>

text \<open>
  What the peer and the kernel do is a script the model is run against.

  Reading: each event is the outcome of one wait on the descriptor. \<open>Data bs\<close>
  means the bytes \<open>bs\<close> are available (no bytes: the peer has closed, the
  read returns 0); a read of \<open>count\<close> bytes takes the first \<open>count\<close> of
  them and leaves the others for the next read. When the script is used up the
  peer sends nothing more, and \<open>select\<close> runs into its timeout.

  Writing: each event is the outcome of one \<open>write\<close> call: an \<open>errno\<close>, a short
  write that takes at most the given number of bytes, or a write that takes
  the whole buffer. When the script is used up every write takes the whole
  buffer.
\<close>

datatype rd_event = Select_timeout | Select_failed int | Read_failed int | Data "byte list"

datatype wr_event = Write_failed int | Write_short nat | Write_all

record socket =
  rscript :: "rd_event list"
  wscript :: "wr_event list"
  wire :: "byte list"  \<comment> \<open>the bytes sent to the peer so far\<close>
  is_closed :: bool

text \<open>\<open>write(fd, data, len)\<close>: the return value, or \<open>Inl errno\<close> for \<open>-1\<close>.\<close>

fun sys_write :: "socket \<Rightarrow> byte list \<Rightarrow> (int + nat) \<times> socket" where
  "sys_write s data =
     (case wscript s of
        [] \<Rightarrow> (Inr (length data), s\<lparr>wire := wire s @ data\<rparr>)
      | Write_failed errno # ws \<Rightarrow> (Inl errno, s\<lparr>wscript := ws\<rparr>)
      | Write_short n # ws \<Rightarrow>
          (Inr (min n (length data)), s\<lparr>wscript := ws, wire := wire s @ take n data\<rparr>)
      | Write_all # ws \<Rightarrow> (Inr (length data), s\<lparr>wscript := ws, wire := wire s @ data\<rparr>))"

section \<open>The connection and its writer\<close>

text \<open>
  \<open>struct esdm_rpcs_connection\<close>. The service (\<open>proto\<close>) and the scratch
  allocator are passed to the functions that use them.
\<close>

record esdm_rpcs_connection =
  child_fd :: int
  method_index :: u32
  request_id :: u32

text \<open>
  The \<open>do ... while (written < len)\<close> loop of \<open>esdm_rpcs_write_data\<close>. Every
  iteration calls \<open>write(fd, data, len)\<close> with the same \<open>data\<close> and \<open>len\<close>.
\<close>

function esdm_rpcs_write_loop :: "byte list \<Rightarrow> nat \<Rightarrow> socket \<Rightarrow> int \<times> socket" where
  "esdm_rpcs_write_loop data written s =
     (case sys_write s data of
        (Inl errsv, s') \<Rightarrow> (- errsv, s')
      | (Inr ret, s') \<Rightarrow>
          (let written' = written + ret
           in if written' < length data then esdm_rpcs_write_loop data written' s'
              else (0, s')))"
  by pat_completeness auto
termination
proof (relation "measure (\<lambda>(data, written, s). length (wscript s))")
  show "wf (measure (\<lambda>(data, written, s). length (wscript s)))" by simp
next
  fix data :: "byte list" and written :: nat and s x1 s' ret written'
  assume "(x1, s') = sys_write s data" "x1 = Inr ret" "written' = written + ret"
    "written' < length data"
  then show "((data, written', s'), (data, written, s))
      \<in> measure (\<lambda>(data, written, s). length (wscript s))"
    by (cases "wscript s") (auto split: wr_event.splits)
qed

declare esdm_rpcs_write_loop.simps [simp del]

definition esdm_rpcs_write_data ::
    "esdm_rpcs_connection \<Rightarrow> byte list \<Rightarrow> socket \<Rightarrow> int \<times> socket" where
  "esdm_rpcs_write_data rpc_conn data s =
     (if child_fd rpc_conn < 0 then (- EINVAL, s)
      else esdm_rpcs_write_loop data 0 s)"

text \<open>\<open>esdm_rpcs_append_data\<close> drops the writer's return value.\<close>

definition esdm_rpcs_append_data ::
    "esdm_rpcs_connection \<Rightarrow> byte list \<Rightarrow> socket \<Rightarrow> socket" where
  "esdm_rpcs_append_data rpc_conn data s = snd (esdm_rpcs_write_data rpc_conn data s)"

section \<open>Encoding a response: \<open>esdm_rpcs_pack\<close>\<close>

text \<open>
  The functions of the protobuf-c library that the encoder calls, for messages
  of type \<open>'m\<close>: the structure check, the packed size, and the packing into a
  \<open>ProtobufCBuffer\<close>, given by the chunks it hands to the buffer's \<open>append\<close>
  callback, in order; its return value is the number of bytes it handed over.
\<close>

record 'm protobuf_c =
  protobuf_c_message_check :: "'m \<Rightarrow> bool"
  protobuf_c_message_get_packed_size :: "'m \<Rightarrow> nat"
  protobuf_c_message_pack_to_buffer :: "'m \<Rightarrow> byte list list"

definition esdm_rpcs_pack ::
    "'m protobuf_c \<Rightarrow> 'm \<Rightarrow> esdm_rpcs_connection \<Rightarrow> socket \<Rightarrow> int \<times> socket" where
  "esdm_rpcs_pack pb message rpc_conn s =
     (if \<not> protobuf_c_message_check pb message then
        esdm_rpcs_write_data rpc_conn
          (sc_header_bytes
            \<lparr>sc_status_code = PROTOBUF_C_RPC_STATUS_CODE_SERVICE_FAILED,
             sc_method_index = method_index rpc_conn,
             sc_message_length = 0,
             sc_request_id = request_id rpc_conn\<rparr>) s
      else
        (let message_length = protobuf_c_message_get_packed_size pb message;
             sc_header =
               \<lparr>sc_status_code = PROTOBUF_C_RPC_STATUS_CODE_SUCCESS,
                sc_method_index = method_index rpc_conn,
                sc_message_length = of_nat message_length,
                sc_request_id = request_id rpc_conn\<rparr>
         in case esdm_rpcs_write_data rpc_conn (sc_header_bytes sc_header) s of
              (ret, s1) \<Rightarrow>
                if CKINT_fails ret then (ret, s1)
                else
                  (let chunks = protobuf_c_message_pack_to_buffer pb message;
                       s2 = fold (esdm_rpcs_append_data rpc_conn) chunks s1
                   in if sum_list (map length chunks) \<noteq> message_length
                      then (- EFAULT, s2) else (ret, s2))))"

text \<open>
  \<open>esdm_rpcs_response_closure\<close> returns nothing: a failure of the encoder is
  logged and dropped.
\<close>

definition esdm_rpcs_response_closure ::
    "'m protobuf_c \<Rightarrow> esdm_rpcs_connection \<Rightarrow> 'm \<Rightarrow> socket \<Rightarrow> socket" where
  "esdm_rpcs_response_closure pb rpc_conn message s = snd (esdm_rpcs_pack pb message rpc_conn s)"

section \<open>Decoding and dispatching a request: \<open>esdm_rpcs_unpack\<close>\<close>

text \<open>
  What a connection's \<open>ProtobufCService\<close> and the helpers around it do, for
  descriptors of type \<open>'d\<close> and messages of type \<open>'m\<close>:
  \<^item> \<open>esdm_rpc_proto_get_descriptor\<close> (of \<open>helper.c\<close>, not among the sources):
    its return value and the descriptor it stores for the request's
    \<open>method_index\<close>;
  \<^item> \<open>protobuf_c_message_unpack\<close> with the connection's scratch allocator:
    the message, or \<open>None\<close> for \<open>NULL\<close>;
  \<^item> \<open>service->invoke\<close>: the responses with which the handler calls the
    closure, in order.
\<close>

record ('d, 'm) rpc_service =
  esdm_rpc_proto_get_descriptor :: "cs_header \<Rightarrow> int \<times> 'd"
  protobuf_c_message_unpack :: "'d \<Rightarrow> nat \<Rightarrow> byte list \<Rightarrow> 'm option"
  invoke :: "u32 \<Rightarrow> 'm \<Rightarrow> 'm list"

text \<open>
  \<open>header\<close> and \<open>data\<close> are \<open>received_data->header\<close> and
  \<open>received_data->data\<close>; the deserializer reads \<open>message_length\<close> bytes of
  the latter.
\<close>

definition esdm_rpcs_unpack ::
    "'m protobuf_c \<Rightarrow> ('d, 'm) rpc_service \<Rightarrow> esdm_rpcs_connection \<Rightarrow> cs_header \<Rightarrow>
     byte list \<Rightarrow> socket \<Rightarrow> int \<times> esdm_rpcs_connection \<times> socket" where
  "esdm_rpcs_unpack pb service rpc_conn header data s =
     (let method_index = cs_method_index header
      in case esdm_rpc_proto_get_descriptor service header of
           (ret, desc) \<Rightarrow>
             if CKINT_fails ret then (ret, rpc_conn, s)
             else
               (case protobuf_c_message_unpack service desc
                       (unat (cs_message_length header))
                       (take (unat (cs_message_length header)) data) of
                  None \<Rightarrow> (- ENOMEM, rpc_conn, s)
                | Some message \<Rightarrow>
                    (let rpc_conn' = rpc_conn\<lparr>method_index := method_index,
                                              request_id := cs_request_id header\<rparr>
                     in (ret, rpc_conn',
                         fold (esdm_rpcs_response_closure pb rpc_conn')
                           (invoke service method_index message) s))))"

section \<open>Reading a request: \<open>esdm_rpcs_read\<close>\<close>

text \<open>
  \<open>select\<close> on the descriptor: \<open>Inl errno\<close> for \<open>-1\<close>, else the number of
  ready descriptors (0: the timeout ran out).
\<close>

fun sys_select :: "socket \<Rightarrow> (int + nat) \<times> socket" where
  "sys_select s =
     (case rscript s of
        [] \<Rightarrow> (Inr 0, s)
      | Select_timeout # es \<Rightarrow> (Inr 0, s\<lparr>rscript := es\<rparr>)
      | Select_failed errno # es \<Rightarrow> (Inl errno, s\<lparr>rscript := es\<rparr>)
      | _ \<Rightarrow> (Inr 1, s))"

text \<open>\<open>read(fd, buf_p, count)\<close>: \<open>Inl errno\<close> for \<open>-1\<close>, else the bytes stored at \<open>buf_p\<close>.\<close>

fun sys_read :: "socket \<Rightarrow> nat \<Rightarrow> (int + byte list) \<times> socket" where
  "sys_read s count =
     (case rscript s of
        Read_failed errno # es \<Rightarrow> (Inl errno, s\<lparr>rscript := es\<rparr>)
      | Data bs # es \<Rightarrow>
          (Inr (take count bs),
           s\<lparr>rscript := (if length bs \<le> count then es else Data (drop count bs) # es)\<rparr>)
      | _ \<Rightarrow> (Inr [], s))"

text \<open>
  The locals of \<open>esdm_rpcs_read\<close> that the receive loop changes. \<open>buf\<close> holds
  the \<open>total_received\<close> bytes stored so far (\<open>buf_p\<close> points behind them);
  \<open>header\<close> is \<open>received_data->header\<close> after its conversion in place.
  The first argument \<open>M\<close> of the functions below is the constant
  \<open>ESDM_RPC_MAX_MSG_SIZE\<close> (of \<open>esdm_rpc_protocol.h\<close>, not among the sources).
\<close>

record read_state =
  total_received :: nat
  buf :: "byte list"
  data_to_fetch :: nat
  header :: cs_header

definition BUF_SIZE :: "nat \<Rightarrow> nat" where
  "BUF_SIZE M = M + CS_HEADER_SIZE"

definition read_state_init :: read_state where
  "read_state_init =
     \<lparr>total_received = 0, buf = [], data_to_fetch = 0,
      header = \<lparr>cs_method_index = 0, cs_message_length = 0, cs_request_id = 0\<rparr>\<rparr>"

datatype 'a loop_ctl = Goto_out int | Break 'a | Continue 'a

text \<open>
  The part of the loop's body that follows a read of at least one byte, from
  \<open>total_received += received\<close> to the end of the body. \<open>Continue\<close> goes to
  the loop condition, as both the \<open>continue\<close> statement and the end of the body
  do. \<open>data_to_fetch\<close> is a \<open>uint32_t\<close>.
\<close>

definition esdm_rpcs_read_received ::
    "nat \<Rightarrow> read_state \<Rightarrow> byte list \<Rightarrow> read_state loop_ctl" where
  "esdm_rpcs_read_received M st received =
     (let st1 = st\<lparr>total_received := total_received st + length received,
                    buf := buf st @ received\<rparr>
      in if total_received st1 < CS_HEADER_SIZE then Continue st1
         else if data_to_fetch st1 = 0 then
           (let h = cs_header_of_bytes (buf st1);
                h' = (if unat (cs_message_length h) > M
                      then h\<lparr>cs_message_length := of_nat M\<rparr> else h);
                st2 = st1\<lparr>header := h', data_to_fetch := unat (cs_message_length h')\<rparr>
            in if data_to_fetch st2 = 0 then Break st2
               else
                 (let st3 = st2\<lparr>data_to_fetch :=
                                (data_to_fetch st2 + CS_HEADER_SIZE) mod 2 ^ 32\<rparr>
                  in if total_received st3 \<ge> data_to_fetch st3
                     then Break st3 else Continue st3))
         else if total_received st1 \<ge> data_to_fetch st1 then Break st1
         else Continue st1)"

text \<open>One pass through the body of the \<open>do ... while (total_received < sizeof(buf))\<close> loop.\<close>

definition esdm_rpcs_read_iteration ::
    "nat \<Rightarrow> read_state \<Rightarrow> socket \<Rightarrow> read_state loop_ctl \<times> socket" where
  "esdm_rpcs_read_iteration M st s =
     (case sys_select s of
        (Inl errno, s1) \<Rightarrow> (Goto_out (- errno), s1)
      | (Inr n, s1) \<Rightarrow>
          if n = 0 then (Goto_out (- EAGAIN), s1)
          else
            (case sys_read s1 (BUF_SIZE M - total_received st) of
               (Inl errno, s2) \<Rightarrow> (Goto_out (- errno), s2)
             | (Inr received, s2) \<Rightarrow>
                 if length received = 0 then (Goto_out (- EAGAIN), s2)
                 else (esdm_rpcs_read_received M st received, s2)))"

text \<open>
  The loop. The result is \<open>Some ret\<close> when the body jumped to \<open>out\<close> with
  that \<open>ret\<close>, \<open>None\<close> when the loop was left by \<open>break\<close> or by its condition,
  with the locals as they then are.
\<close>

function esdm_rpcs_read_loop ::
    "nat \<Rightarrow> read_state \<Rightarrow> socket \<Rightarrow> int option \<times> read_state \<times> socket" where
  "esdm_rpcs_read_loop M st s =
     (case esdm_rpcs_read_iteration M st s of
        (Goto_out ret, s') \<Rightarrow> (Some ret, st, s')
      | (Break st', s') \<Rightarrow> (None, st', s')
      | (Continue st', s') \<Rightarrow>
          if total_received st' < BUF_SIZE M then esdm_rpcs_read_loop M st' s'
          else (None, st', s'))"
  by pat_completeness auto
termination
proof (relation "measure (\<lambda>(M, st, s). BUF_SIZE M - total_received st)")
  show "wf (measure (\<lambda>(M, st, s). BUF_SIZE M - total_received st))" by simp
next
  fix M st s x1 s' st'
  assume it: "(x1, s') = esdm_rpcs_read_iteration M st s" "x1 = Continue st'"
    and lt: "total_received st' < BUF_SIZE M"
  from it have "total_received st < total_received st'"
    by (auto simp: esdm_rpcs_read_iteration_def esdm_rpcs_read_received_def Let_def
             split: prod.splits sum.splits if_splits)
  with lt show "((M, st', s'), (M, st, s))
      \<in> measure (\<lambda>(M, st, s). BUF_SIZE M - total_received st)"
    by simp
qed

declare esdm_rpcs_read_loop.simps [simp del]

text \<open>
  After the loop the request is handed to \<open>esdm_rpcs_unpack\<close>; whatever it
  returns is returned. The two \<open>memset_secure\<close> calls at \<open>out\<close> clear the
  buffers, which are locals.
\<close>

definition esdm_rpcs_read ::
    "nat \<Rightarrow> 'm protobuf_c \<Rightarrow> ('d, 'm) rpc_service \<Rightarrow> esdm_rpcs_connection \<Rightarrow> socket \<Rightarrow>
     int \<times> esdm_rpcs_connection \<times> socket" where
  "esdm_rpcs_read M pb service rpc_conn s =
     (if child_fd rpc_conn < 0 then (- EINVAL, rpc_conn, s)
      else
        (case esdm_rpcs_read_loop M read_state_init s of
           (Some ret, st, s') \<Rightarrow> (ret, rpc_conn, s')
         | (None, st, s') \<Rightarrow>
             esdm_rpcs_unpack pb service rpc_conn (header st)
               (drop CS_HEADER_SIZE (buf st)) s'))"

section \<open>The connection handler: \<open>esdm_rpcs_handler\<close>\<close>

text \<open>
  The handler calls \<open>esdm_rpcs_read\<close> until it returns something other than
  0, then closes the descriptor. Against a finite script this ends: a call
  that returns 0 has used up part of the script, which the following measure
  and lemmas show.
\<close>

fun rd_event_size :: "rd_event \<Rightarrow> nat" where
  "rd_event_size (Data bs) = Suc (length bs)"
| "rd_event_size _ = 1"

definition rscript_size :: "socket \<Rightarrow> nat" where
  "rscript_size s = sum_list (map rd_event_size (rscript s))"

lemma write_loop_rscript:
  "esdm_rpcs_write_loop data written s = (r, s') \<Longrightarrow> rscript s' = rscript s"
proof (induction data written s rule: esdm_rpcs_write_loop.induct)
  case (1 data written s)
  show ?case
  proof (cases "sys_write s data")
    case (Pair x s1)
    have s1: "rscript s1 = rscript s"
      using Pair by (auto split: list.splits wr_event.splits)
    show ?thesis
    proof (cases x)
      case (Inl e)
      with Pair "1.prems" s1 show ?thesis
        by (subst (asm) esdm_rpcs_write_loop.simps) simp
    next
      case (Inr n)
      show ?thesis
      proof (cases "written + n < length data")
        case True
        with Pair Inr "1.prems" have "esdm_rpcs_write_loop data (written + n) s1 = (r, s')"
          by (subst (asm) esdm_rpcs_write_loop.simps) simp
        with "1.IH" [OF Pair [symmetric] Inr refl True] s1 show ?thesis by simp
      next
        case False
        with Pair Inr "1.prems" s1 show ?thesis
          by (subst (asm) esdm_rpcs_write_loop.simps) simp
      qed
    qed
  qed
qed

lemma write_data_rscript:
  "esdm_rpcs_write_data c data s = (r, s') \<Longrightarrow> rscript s' = rscript s"
  by (auto simp: esdm_rpcs_write_data_def dest: write_loop_rscript split: if_splits)

lemma append_data_rscript:
  "rscript (esdm_rpcs_append_data c data s) = rscript s"
  by (cases "esdm_rpcs_write_data c data s")
     (simp add: esdm_rpcs_append_data_def write_data_rscript)

lemma fold_append_rscript:
  "rscript (fold (esdm_rpcs_append_data c) chunks s) = rscript s"
  by (induction chunks arbitrary: s) (simp_all add: append_data_rscript)

lemma pack_rscript:
  "esdm_rpcs_pack pb m c s = (r, s') \<Longrightarrow> rscript s' = rscript s"
  by (auto simp: esdm_rpcs_pack_def Let_def fold_append_rscript
           split: prod.splits if_splits dest: write_data_rscript)

lemma closure_rscript:
  "rscript (esdm_rpcs_response_closure pb c m s) = rscript s"
  by (cases "esdm_rpcs_pack pb m c s")
     (simp add: esdm_rpcs_response_closure_def pack_rscript)

lemma fold_closure_rscript:
  "rscript (fold (esdm_rpcs_response_closure pb c) ms s) = rscript s"
  by (induction ms arbitrary: s) (simp_all add: closure_rscript)

lemma unpack_rscript:
  "esdm_rpcs_unpack pb svc c h d s = (r, c', s') \<Longrightarrow> rscript s' = rscript s"
  by (auto simp: esdm_rpcs_unpack_def Let_def fold_closure_rscript
           split: prod.splits if_splits option.splits)

lemma iteration_size:
  "esdm_rpcs_read_iteration M st s = (ctl, s') \<Longrightarrow>
   rscript_size s' \<le> rscript_size s \<and>
   (rscript s \<noteq> [] \<longrightarrow> rscript_size s' < rscript_size s \<or> ctl = Goto_out (- EAGAIN))"
  apply (cases "rscript s")
   apply (auto simp: esdm_rpcs_read_iteration_def rscript_size_def
           split: prod.splits sum.splits if_splits list.splits rd_event.splits)
  done


lemma read_loop_size:
  "esdm_rpcs_read_loop M st s = (r, st', s') \<Longrightarrow>
   rscript_size s' < rscript_size s \<or> r = Some (- EAGAIN)"
proof (induction M st s arbitrary: st' rule: esdm_rpcs_read_loop.induct)
  case (1 M st s)
  obtain ctl s1 where it: "esdm_rpcs_read_iteration M st s = (ctl, s1)"
    by (cases "esdm_rpcs_read_iteration M st s")
  from iteration_size [OF it]
  have le: "rscript_size s1 \<le> rscript_size s"
    and dec: "rscript s \<noteq> [] \<Longrightarrow> rscript_size s1 < rscript_size s \<or> ctl = Goto_out (- EAGAIN)"
    by simp_all
  have empty: "rscript s = [] \<Longrightarrow> ctl = Goto_out (- EAGAIN)"
    using it by (simp add: esdm_rpcs_read_iteration_def)
  show ?case
  proof (cases ctl)
    case (Goto_out ret)
    with it "1.prems" have "r = Some ret" "s' = s1"
      by (simp_all add: esdm_rpcs_read_loop.simps [of M st s])
    with Goto_out dec empty show ?thesis by (cases "rscript s = []") auto
  next
    case (Break st2)
    with it "1.prems" have "s' = s1"
      by (simp add: esdm_rpcs_read_loop.simps [of M st s])
    with Break dec empty show ?thesis by (cases "rscript s = []") auto
  next
    case (Continue st2)
    have lt: "rscript_size s1 < rscript_size s"
      using Continue dec empty by (cases "rscript s = []") auto
    show ?thesis
    proof (cases "total_received st2 < BUF_SIZE M")
      case True
      with it Continue "1.prems" have "esdm_rpcs_read_loop M st2 s1 = (r, st', s')"
        by (simp add: esdm_rpcs_read_loop.simps [of M st s])
      from "1.IH" [OF it [symmetric] Continue True this] lt show ?thesis by auto
    next
      case False
      with it Continue "1.prems" have "s' = s1"
        by (simp add: esdm_rpcs_read_loop.simps [of M st s])
      with lt show ?thesis by simp
    qed
  qed
qed

lemma read_size:
  assumes "esdm_rpcs_read M pb svc c s = (0, c', s')"
  shows "rscript_size s' < rscript_size s"
proof -
  from assms have fd: "\<not> child_fd c < 0"
    by (auto simp: esdm_rpcs_read_def EINVAL_def split: if_splits)
  obtain r st s1 where loop: "esdm_rpcs_read_loop M read_state_init s = (r, st, s1)"
    by (cases "esdm_rpcs_read_loop M read_state_init s")
  show ?thesis
  proof (cases r)
    case (Some ret)
    with assms fd loop have "ret = 0" "s' = s1" by (simp_all add: esdm_rpcs_read_def)
    with read_loop_size [OF loop] Some show ?thesis by (simp add: EAGAIN_def)
  next
    case None
    with assms fd loop have
      "esdm_rpcs_unpack pb svc c (header st) (drop CS_HEADER_SIZE (buf st)) s1 = (0, c', s')"
      by (simp add: esdm_rpcs_read_def)
    then have "rscript s' = rscript s1" by (rule unpack_rscript)
    with read_loop_size [OF loop] None show ?thesis by (simp add: rscript_size_def)
  qed
qed

function esdm_rpcs_handler ::
    "nat \<Rightarrow> 'm protobuf_c \<Rightarrow> ('d, 'm) rpc_service \<Rightarrow> esdm_rpcs_connection \<Rightarrow> socket \<Rightarrow>
     int \<times> socket" where
  "esdm_rpcs_handler M pb service rpc_conn s =
     (case esdm_rpcs_read M pb service rpc_conn s of
        (ret, rpc_conn', s') \<Rightarrow>
          if ret = 0 then esdm_rpcs_handler M pb service rpc_conn' s'
          else (0, s'\<lparr>is_closed := True\<rparr>))"
  by pat_completeness auto
termination
proof (relation "measure (\<lambda>(M, pb, service, rpc_conn, s). rscript_size s)")
  show "wf (measure (\<lambda>(M, pb, service, rpc_conn, s). rscript_size s))" by simp
next
  fix M and pb :: "'m protobuf_c" and service :: "('d, 'm) rpc_service"
    and rpc_conn s x1 x2 rpc_conn' s'
  assume "(x1, x2) = esdm_rpcs_read M pb service rpc_conn s" "(rpc_conn', s') = x2" "x1 = 0"
  then have "esdm_rpcs_read M pb service rpc_conn s = (0, rpc_conn', s')" by simp
  then show "((M, pb, service, rpc_conn', s'), (M, pb, service, rpc_conn, s))
      \<in> measure (\<lambda>(M, pb, service, rpc_conn, s). rscript_size s)"
    by (simp add: read_size)
qed

declare esdm_rpcs_handler.simps [simp del]

section \<open>Access guard: \<open>esdm_rpc_client_is_privileged\<close>\<close>

text \<open>
  The peer credentials \<open>struct ucred\<close> as filled in by
  \<open>getsockopt(fd, SOL_SOCKET, SO_PEERCRED, &cred, &len)\<close>.
\<close>

record ucred =
  pid :: int
  uid :: nat
  gid :: nat

text \<open>
  The outcome of the \<open>getsockopt\<close> call: a negative return value (with its
  \<open>errno\<close>), or success with the credentials written to \<open>cred\<close>.
\<close>

datatype getsockopt_result = Getsockopt_failed int | Getsockopt_ok ucred

fun esdm_rpc_client_is_privileged :: "getsockopt_result \<Rightarrow> bool" where
  "esdm_rpc_client_is_privileged (Getsockopt_failed errno) = False"
| "esdm_rpc_client_is_privileged (Getsockopt_ok cred) =
     (if uid cred = 0 then True else False)"

section \<open>Creating a listener: \<open>esdm_rpcs_stale_socket\<close> and \<open>esdm_rpcs_start\<close>\<close>

definition EINPROGRESS :: int where "EINPROGRESS = 115"
definition EADDRINUSE :: int where "EADDRINUSE = 98"

text \<open>
  The file system as far as the listener sees it: which paths exist, and
  whether a path is a socket (\<open>S_ISSOCK\<close>) or something else; and the calls
  made so far, in order.
\<close>

datatype file_type = S_IFSOCK | S_IFREG

datatype sys_call =
    Call_stat string
  | Call_socket int
  | Call_set_fd_nonblocking int
  | Call_connect int string
  | Call_close int
  | Call_unlink string
  | Call_bind int string
  | Call_bind_port int nat
  | Call_listen int

record os =
  files :: "string \<rightharpoonup> file_type"
  calls :: "sys_call list"

text \<open>
  What the kernel answers where the file system above does not decide it:
  the descriptor or \<open>-1\<close> that \<open>socket\<close> returns for the probe, the \<open>errno\<close> of
  the probe's \<open>connect\<close> (\<open>None\<close>: it returns 0), of \<open>unlink\<close>, of the listener's
  \<open>socket\<close> (or its descriptor), of a \<open>bind\<close> to a free address and of \<open>listen\<close>.
\<close>

record start_env =
  probe_socket_ret :: int
  connect_errno :: "int option"
  unlink_errno :: "int option"
  socket_result :: "int + int"
  bind_errno :: "int option"
  listen_errno :: "int option"

definition call :: "sys_call \<Rightarrow> os \<Rightarrow> os" where
  "call c w = w\<lparr>calls := calls w @ [c]\<rparr>"

text \<open>\<open>unlink(path)\<close>: the path is gone when the call succeeds.\<close>

definition sys_unlink :: "start_env \<Rightarrow> string \<Rightarrow> os \<Rightarrow> os" where
  "sys_unlink env path w =
     (let w1 = call (Call_unlink path) w
      in case unlink_errno env of
           None \<Rightarrow> w1\<lparr>files := (files w1)(path := None)\<rparr>
         | Some errno \<Rightarrow> w1)"

text \<open>
  \<open>bind(fd, address, address_len)\<close> to a path: \<open>Inl errno\<close> for \<open>-1\<close>. A path
  that exists cannot be bound (\<open>EADDRINUSE\<close>); binding creates the socket file.
\<close>

definition sys_bind :: "start_env \<Rightarrow> int \<Rightarrow> string \<Rightarrow> os \<Rightarrow> (int + unit) \<times> os" where
  "sys_bind env fd path w =
     (let w1 = call (Call_bind fd path) w
      in case files w1 path of
           Some t \<Rightarrow> (Inl EADDRINUSE, w1)
         | None \<Rightarrow>
             (case bind_errno env of
                Some errno \<Rightarrow> (Inl errno, w1)
              | None \<Rightarrow> (Inr (), w1\<lparr>files := (files w1)(path \<mapsto> S_IFSOCK)\<rparr>)))"

text \<open>\<open>bind\<close> to a TCP port.\<close>

definition sys_bind_port :: "start_env \<Rightarrow> int \<Rightarrow> nat \<Rightarrow> os \<Rightarrow> (int + unit) \<times> os" where
  "sys_bind_port env fd port w =
     (let w1 = call (Call_bind_port fd port) w
      in case bind_errno env of
           Some errno \<Rightarrow> (Inl errno, w1)
         | None \<Rightarrow> (Inr (), w1))"

definition esdm_rpcs_stale_socket :: "start_env \<Rightarrow> string \<Rightarrow> os \<Rightarrow> os" where
  "esdm_rpcs_stale_socket env path w =
     (let w1 = call (Call_stat path) w
      in case files w1 path of
           None \<Rightarrow> w1
         | Some t \<Rightarrow>
             if t \<noteq> S_IFSOCK then w1
             else
               (let fd = probe_socket_ret env;
                    w2 = call (Call_socket fd) w1
                in if fd < 0 then w2
                   else
                     (let w3 = call (Call_set_fd_nonblocking fd) w2;
                          w4 = call (Call_connect fd path) w3
                      in case connect_errno env of
                           None \<Rightarrow> call (Call_close fd) w4
                         | Some errno \<Rightarrow>
                             if errno = EINPROGRESS then call (Call_close fd) w4
                             else sys_unlink env path (call (Call_close fd) w4))))"

text \<open>
  \<open>struct esdm_rpcs\<close>, without the service pointer. \<open>esdm_rpcs_start\<close> gets the
  path (\<open>None\<close> for \<open>NULL\<close>) and the TCP port, and returns its return value
  with the \<open>proto\<close> it leaves. With neither a path nor a port it returns
  \<open>-EINVAL\<close>; the two address families differ in the probe for a stale
  socket, which is made for a path only, and in the address that is bound.
\<close>

record esdm_rpcs =
  server_listening_fd :: int

definition esdm_rpcs_start ::
    "start_env \<Rightarrow> string option \<Rightarrow> nat \<Rightarrow> esdm_rpcs \<Rightarrow> os \<Rightarrow> int \<times> esdm_rpcs \<times> os" where
  "esdm_rpcs_start env unix_socket tcp_port proto w =
     (if unix_socket = None \<and> tcp_port = 0 then (- EINVAL, proto, w)
      else
        (let w1 = (case unix_socket of
                     Some path \<Rightarrow> esdm_rpcs_stale_socket env path w
                   | None \<Rightarrow> w)
         in case socket_result env of
              Inl errno \<Rightarrow> (- errno, proto, call (Call_socket (- 1)) w1)
            | Inr fd \<Rightarrow>
                (let w2 = call (Call_socket fd) w1
                 in case (case unix_socket of
                            Some path \<Rightarrow> sys_bind env fd path w2
                          | None \<Rightarrow> sys_bind_port env fd tcp_port w2) of
                      (Inl errno, w3) \<Rightarrow> (- errno, proto, call (Call_close fd) w3)
                    | (Inr u, w3) \<Rightarrow>
                        (let w4 = call (Call_listen fd) w3
                         in case listen_errno env of
                              Some errno \<Rightarrow> (- errno, proto, call (Call_close fd) w4)
                            | None \<Rightarrow> (0, proto\<lparr>server_listening_fd := fd\<rparr>, w4)))))"

section \<open>The supervisor: \<open>esdm_rpc_server_init\<close> and \<open>esdm_rpcs_cleanup\<close>\<close>

text \<open>
  The names of the resources, from headers that are not among the sources:
  the two socket paths, the key \<open>esdm_ftok(ESDM_SHM_NAME, ESDM_SHM_STATUS)\<close> of
  the status segment, and the name of the semaphore.
\<close>

record esdm_names =
  ESDM_RPC_UNPRIV_SOCKET :: string
  ESDM_RPC_PRIV_SOCKET :: string
  ESDM_SHM_STATUS_KEY :: int
  ESDM_SEM_NAME :: string

datatype log_level = LOGGER_ERR | LOGGER_VERBOSE | LOGGER_DEBUG

datatype sig_handler = SIG_DFL | Esdm_rpcs_cleanup_term

text \<open>What the supervisor does, in order; calls are listed with their return values.\<close>

datatype sup_event =
    Thread_init int
  | Fork int
  | Exit int
  | Interfaces_init "string option"
  | Set_server_pid int
  | Cleanup_signals sig_handler
  | Waitpid int
  | Unlink string int
  | Shmget int int
  | Shmctl_rmid int int
  | Sem_unlink string int
  | Logger log_level

text \<open>The return values of the calls that \<open>esdm_rpcs_cleanup\<close> makes.\<close>

record cleanup_env =
  unlink_unpriv_ret :: int
  unlink_priv_ret :: int
  shmget_ret :: int
  shmctl_ret :: int
  sem_unlink_ret :: int

definition esdm_rpcs_cleanup :: "esdm_names \<Rightarrow> cleanup_env \<Rightarrow> sup_event list" where
  "esdm_rpcs_cleanup names env =
     [Unlink (ESDM_RPC_UNPRIV_SOCKET names) (unlink_unpriv_ret env),
      if unlink_unpriv_ret env < 0 then Logger LOGGER_ERR else Logger LOGGER_DEBUG] @
     [Unlink (ESDM_RPC_PRIV_SOCKET names) (unlink_priv_ret env),
      if unlink_priv_ret env < 0 then Logger LOGGER_ERR else Logger LOGGER_DEBUG] @
     [Shmget (ESDM_SHM_STATUS_KEY names) (shmget_ret env)] @
     (if shmget_ret env < 0 then [Logger LOGGER_ERR]
      else [Shmctl_rmid (shmget_ret env) (shmctl_ret env),
            if shmctl_ret env < 0 then Logger LOGGER_ERR else Logger LOGGER_DEBUG]) @
     [Sem_unlink (ESDM_SEM_NAME names) (sem_unlink_ret env),
      if sem_unlink_ret env \<noteq> 0 then Logger LOGGER_VERBOSE else Logger LOGGER_DEBUG]"

text \<open>
  \<open>esdm_rpc_server_init\<close>, in whichever process \<open>fork\<close> returns the given
  value: what it does and what it returns (\<open>None\<close>: it called \<open>exit\<close>). The
  child runs \<open>esdm_rpcs_interfaces_init\<close>, whose return value is dropped.
\<close>

record init_env =
  thread_init_ret :: int
  fork_ret :: int
  cleanup_rets :: cleanup_env

definition esdm_rpc_server_init ::
    "esdm_names \<Rightarrow> init_env \<Rightarrow> string option \<Rightarrow> sup_event list \<times> int option" where
  "esdm_rpc_server_init names env username =
     (let ret = thread_init_ret env
      in if CKINT_fails ret then ([Thread_init ret], Some ret)
         else
           (let pid = fork_ret env
            in if pid < 0 then
                 ([Thread_init ret, Fork pid, Logger LOGGER_ERR, Exit 1], None)
               else if pid = 0 then
                 ([Thread_init ret, Fork pid, Interfaces_init username], Some ret)
               else
                 ([Thread_init ret, Fork pid, Set_server_pid pid,
                   Cleanup_signals Esdm_rpcs_cleanup_term, Waitpid pid,
                   Set_server_pid (- 1), Cleanup_signals SIG_DFL] @
                  esdm_rpcs_cleanup names (cleanup_rets env), Some ret)))"

section \<open>The bootstrap: \<open>esdm_rpcs_interfaces_init\<close> and \<open>esdm_rpcs_unpriv_init\<close>\<close>

text \<open>
  The server process runs the bootstrap on its main thread and
  \<open>esdm_rpcs_unpriv_init\<close> on the thread that the bootstrap starts. Both are
  modelled by the statement each thread is at; what they share is the
  process's user id and the wait queue \<open>esdm_rpc_thread_init_wait\<close>.

  The places of \<open>esdm_rpcs_interfaces_init\<close>: before
  \<open>CKINT(esdm_rpcs_start(ESDM_RPC_PRIV_SOCKET, ...))\<close>, before \<open>chmod\<close>, before
  \<open>CKINT(esdm_rpcs_unpriv_init_threads())\<close>, before
  \<open>CKINT(drop_privileges_permanent(...))\<close>, before \<open>thread_wake_all\<close>, in
  \<open>CKINT(esdm_rpcs_workerloop(&priv_proto))\<close>, at the label \<open>out\<close> with the
  given \<open>ret\<close>, and returned.
\<close>

datatype boot_place =
  B_start | B_chmod | B_spawn | B_drop | B_wake | B_workerloop | B_out int | B_returned int

text \<open>
  The places of \<open>esdm_rpcs_unpriv_init\<close>: thread not started, before
  \<open>CKINT(esdm_rpcs_start(ESDM_RPC_UNPRIV_SOCKET, ...))\<close>, before \<open>chmod\<close>, in
  \<open>thread_wait_event\<close>, in \<open>CKINT(esdm_rpcs_workerloop(&unpriv_proto))\<close>, where
  connections are accepted and handler threads started, at \<open>out\<close>, and
  returned.
\<close>

datatype unpriv_place =
  U_not_started | U_start | U_chmod | U_wait | U_workerloop | U_out int | U_returned int

text \<open>
  \<open>drop_called\<close> records the call of \<open>drop_privileges_permanent\<close> once it has
  been made: the user name passed and the value returned.
\<close>

record server_process =
  proc_uid :: nat
  init_wait_woken :: bool
  boot :: boot_place
  unpriv :: unpriv_place
  drop_called :: "(string \<times> int) option"

definition server_process_init :: "nat \<Rightarrow> server_process" where
  "server_process_init uid0 =
     \<lparr>proc_uid = uid0, init_wait_woken = False, boot = B_start, unpriv = U_not_started,
      drop_called = None\<rparr>"

text \<open>
  Modelled from the spec: \<open>drop_privileges_permanent\<close> of \<open>privileges.h\<close>,
  \<open>thread_wake_all\<close> and \<open>thread_wait_event\<close> of \<open>threading_support.h\<close>, which
  are not among the sources. A drop that returns without error has been
  verified: a process that was root now has the user id \<open>account_uid\<close> of the
  account, which is not 0 (a process that was not root keeps its user id); a
  failed drop returns a negative value and leaves the user id as it was.
  \<open>thread_wake_all\<close> releases the threads waiting on the queue, and
  \<open>thread_wait_event(queue, condition)\<close> is passed when the condition holds or
  the queue has been woken.

  One step of the bootstrap thread. \<open>r\<close> is the value its statement leaves in
  \<open>ret\<close> (for \<open>chmod\<close>: \<open>-errno\<close> when it fails), for the start of the thread
  the return value of \<open>thread_start\<close>, whose failure is logged and nothing
  more. The accept loop returns errors only: a step there with a value that
  is not negative is one more round of the loop. \<open>None\<close>: the step is not
  possible.
\<close>

definition boot_step ::
    "string option \<Rightarrow> nat \<Rightarrow> int \<Rightarrow> server_process \<Rightarrow> server_process option" where
  "boot_step username account_uid r p =
     (case boot p of
        B_start \<Rightarrow> Some (p\<lparr>boot := (if CKINT_fails r then B_out r else B_chmod)\<rparr>)
      | B_chmod \<Rightarrow> Some (p\<lparr>boot := (if r < 0 then B_out r else B_spawn)\<rparr>)
      | B_spawn \<Rightarrow>
          Some (p\<lparr>boot := B_drop,
                  unpriv := (if r = 0 then U_start else U_not_started)\<rparr>)
      | B_drop \<Rightarrow>
          (let user = (case username of Some name \<Rightarrow> name | None \<Rightarrow> ''nobody'')
           in if CKINT_fails r
              then Some (p\<lparr>boot := B_out r, drop_called := Some (user, r)\<rparr>)
              else if proc_uid p = 0 \<and> account_uid = 0 then None
              else Some (p\<lparr>boot := B_wake, drop_called := Some (user, r),
                           proc_uid := (if proc_uid p = 0 then account_uid else proc_uid p)\<rparr>))
      | B_wake \<Rightarrow> Some (p\<lparr>boot := B_workerloop, init_wait_woken := True\<rparr>)
      | B_workerloop \<Rightarrow> Some (if CKINT_fails r then p\<lparr>boot := B_out r\<rparr> else p)
      | B_out ret \<Rightarrow> Some (p\<lparr>boot := B_returned ret\<rparr>)
      | B_returned ret \<Rightarrow> None)"

text \<open>
  Modelled from the spec: \<open>thread_wait_event\<close>, as described above. One step
  of the thread that runs \<open>esdm_rpcs_unpriv_init\<close>; the condition it waits
  for is \<open>getuid()\<close>.
\<close>

definition unpriv_step :: "int \<Rightarrow> server_process \<Rightarrow> server_process option" where
  "unpriv_step r p =
     (case unpriv p of
        U_not_started \<Rightarrow> None
      | U_start \<Rightarrow> Some (p\<lparr>unpriv := (if CKINT_fails r then U_out r else U_chmod)\<rparr>)
      | U_chmod \<Rightarrow> Some (p\<lparr>unpriv := (if r < 0 then U_out r else U_wait)\<rparr>)
      | U_wait \<Rightarrow>
          if proc_uid p \<noteq> 0 \<or> init_wait_woken p then Some (p\<lparr>unpriv := U_workerloop\<rparr>)
          else None
      | U_workerloop \<Rightarrow> Some (if CKINT_fails r then p\<lparr>unpriv := U_out r\<rparr> else p)
      | U_out ret \<Rightarrow> Some (p\<lparr>unpriv := U_returned ret\<rparr>)
      | U_returned ret \<Rightarrow> None)"

text \<open>
  A run of the process: which thread takes its next step, with the value
  \<open>r\<close> of that step, in any order.
\<close>

datatype action = Boot int | Unpriv int

fun exec :: "string option \<Rightarrow> nat \<Rightarrow> action \<Rightarrow> server_process \<Rightarrow> server_process option" where
  "exec username account_uid (Boot r) p = boot_step username account_uid r p"
| "exec username account_uid (Unpriv r) p = unpriv_step r p"

fun run ::
    "string option \<Rightarrow> nat \<Rightarrow> action list \<Rightarrow> server_process \<Rightarrow> server_process option" where
  "run username account_uid [] p = Some p"
| "run username account_uid (a # as) p =
     (case exec username account_uid a p of
        None \<Rightarrow> None
      | Some p' \<Rightarrow> run username account_uid as p')"

section \<open>Notions used to state the properties\<close>

text \<open>
  The bytes the peer has made available on the connection, up to the first
  event that is not data: what a reader that never fails would receive.
\<close>

fun stream_bytes :: "rd_event list \<Rightarrow> byte list" where
  "stream_bytes (Data bs # es) = (if bs = [] then [] else bs @ stream_bytes es)"
| "stream_bytes _ = []"

text \<open>The header with \<open>message_length\<close> truncated to \<open>M\<close>, as the receive loop stores it.\<close>

definition clamp_header :: "nat \<Rightarrow> cs_header \<Rightarrow> cs_header" where
  "clamp_header M h =
     (if unat (cs_message_length h) > M then h\<lparr>cs_message_length := of_nat M\<rparr> else h)"

text \<open>
  \<open>request_read\<close>: the locals after the loop describe a whole request.
  \<open>read_inv\<close>: what holds of the locals whenever the loop condition is reached.
\<close>

definition request_read :: "nat \<Rightarrow> read_state \<Rightarrow> bool" where
  "request_read M st \<longleftrightarrow>
     length (buf st) = total_received st \<and> total_received st \<le> BUF_SIZE M \<and>
     CS_HEADER_SIZE \<le> total_received st \<and>
     header st = clamp_header M (cs_header_of_bytes (buf st)) \<and>
     CS_HEADER_SIZE + unat (cs_message_length (header st)) \<le> total_received st"

definition read_inv :: "nat \<Rightarrow> read_state \<Rightarrow> bool" where
  "read_inv M st \<longleftrightarrow>
     length (buf st) = total_received st \<and> total_received st \<le> BUF_SIZE M \<and>
     (if data_to_fetch st = 0 then total_received st < CS_HEADER_SIZE
      else CS_HEADER_SIZE \<le> total_received st \<and>
           header st = clamp_header M (cs_header_of_bytes (buf st)) \<and>
           data_to_fetch st = unat (cs_message_length (header st)) + CS_HEADER_SIZE \<and>
           total_received st < data_to_fetch st)"


text \<open>
  A write script without short writes, in which every failing write has a
  positive \<open>errno\<close>.
\<close>

fun wr_event_ok :: "wr_event \<Rightarrow> bool" where
  "wr_event_ok (Write_failed errno) = (0 < errno)"
| "wr_event_ok (Write_short n) = False"
| "wr_event_ok Write_all = True"

definition no_short_writes :: "socket \<Rightarrow> bool" where
  "no_short_writes s = list_all wr_event_ok (wscript s)"


text \<open>The next \<open>write\<close> call takes the whole buffer it is given.\<close>

definition next_write_completes :: "socket \<Rightarrow> bool" where
  "next_write_completes s = (case wscript s of [] \<Rightarrow> True | e # es \<Rightarrow> e = Write_all)"

text \<open>
  A reply on the wire: the 16 bytes of its header, then its payload.
  \<open>replies_for idx rid\<close>: every reply of the list carries the method index
  \<open>idx\<close> and the request id \<open>rid\<close> in its header.
\<close>

definition reply_frame :: "sc_header \<times> byte list \<Rightarrow> byte list" where
  "reply_frame r = sc_header_bytes (fst r) @ snd r"

definition replies_for :: "u32 \<Rightarrow> u32 \<Rightarrow> (sc_header \<times> byte list) list \<Rightarrow> bool" where
  "replies_for idx rid replies =
     list_all (\<lambda>r. sc_method_index (fst r) = idx \<and> sc_request_id (fst r) = rid) replies"


text \<open>
  For the supervisor's cleanup: the events that are calls on a resource, when
  such a call has failed, and that in a list of events every failed call is
  directly followed by a log entry at level \<open>ERR\<close> or \<open>VERBOSE\<close>.
\<close>

fun cleanup_call :: "sup_event \<Rightarrow> bool" where
  "cleanup_call (Unlink path ret) = True"
| "cleanup_call (Shmget key ret) = True"
| "cleanup_call (Shmctl_rmid shmid ret) = True"
| "cleanup_call (Sem_unlink name ret) = True"
| "cleanup_call e = False"

fun call_failed :: "sup_event \<Rightarrow> bool" where
  "call_failed (Unlink path ret) = (ret < 0)"
| "call_failed (Shmget key ret) = (ret < 0)"
| "call_failed (Shmctl_rmid shmid ret) = (ret < 0)"
| "call_failed (Sem_unlink name ret) = (ret \<noteq> 0)"
| "call_failed e = False"

fun failures_logged :: "sup_event list \<Rightarrow> bool" where
  "failures_logged (e # Logger level # es) =
     ((call_failed e \<longrightarrow> level = LOGGER_ERR \<or> level = LOGGER_VERBOSE) \<and> failures_logged es)"
| "failures_logged (e # es) = (\<not> call_failed e \<and> failures_logged es)"
| "failures_logged [] = True"


text \<open>
  For the bootstrap: what holds in every state the process can reach, on the
  side of the bootstrap thread (\<open>boot_part\<close>) and of both threads
  (\<open>boot_inv\<close>), when \<open>user\<close> is the name passed to
  \<open>drop_privileges_permanent\<close>.
\<close>

definition boot_part :: "string \<Rightarrow> server_process \<Rightarrow> bool" where
  "boot_part user p \<longleftrightarrow>
     (init_wait_woken p \<longrightarrow> proc_uid p \<noteq> 0 \<and> (\<exists>r. drop_called p = Some (user, r) \<and> 0 \<le> r)) \<and>
     (boot p \<in> {B_start, B_chmod, B_spawn, B_drop} \<longrightarrow>
        \<not> init_wait_woken p \<and> drop_called p = None) \<and>
     (boot p = B_wake \<longrightarrow>
        proc_uid p \<noteq> 0 \<and> (\<exists>r. drop_called p = Some (user, r) \<and> 0 \<le> r)) \<and>
     (\<forall>name r. drop_called p = Some (name, r) \<and> r < 0 \<longrightarrow>
        \<not> init_wait_woken p \<and> (boot p = B_out r \<or> boot p = B_returned r))"

definition boot_inv :: "string \<Rightarrow> server_process \<Rightarrow> bool" where
  "boot_inv user p \<longleftrightarrow>
     boot_part user p \<and> (unpriv p = U_workerloop \<longrightarrow> proc_uid p \<noteq> 0)"


section \<open>Properties of the frame envelope\<close>

text \<open>The equations that run the model on a concrete input.\<close>

lemmas run_defs =
  esdm_rpcs_read_def esdm_rpcs_read_loop.simps esdm_rpcs_read_iteration_def
  esdm_rpcs_read_received_def read_state_init_def BUF_SIZE_def CS_HEADER_SIZE_def
  cs_header_of_bytes_def get_le32_def Let_def esdm_rpcs_unpack_def CKINT_fails_def
  esdm_rpcs_response_closure_def esdm_rpcs_pack_def esdm_rpcs_write_data_def
  esdm_rpcs_write_loop.simps esdm_rpcs_append_data_def sc_header_bytes_def put_le32_def
  PROTOBUF_C_RPC_STATUS_CODE_SUCCESS_def PROTOBUF_C_RPC_STATUS_CODE_SERVICE_FAILED_def
  EINVAL_def EAGAIN_def ENOMEM_def EFAULT_def


lemma get_put_le32: "get_le32 (put_le32 w) = w"
  unfolding get_le32_def put_le32_def
  apply (rule bit_word_eqI)
  subgoal for n
    by (cases "n < 8"; cases "n < 16"; cases "n < 24") (auto simp add: bit_simps)
  done

lemma length_put_le32 [simp]: "length (put_le32 w) = 4"
  by (simp add: put_le32_def)

lemma length_sc_header_bytes: "length (sc_header_bytes h) = SC_HEADER_SIZE"
  by (simp add: sc_header_bytes_def SC_HEADER_SIZE_def)

lemma sc_roundtrip: "sc_header_of_bytes (sc_header_bytes h @ rest) = h"
  by (simp add: sc_header_of_bytes_def sc_header_bytes_def get_put_le32)

lemma cs_roundtrip: "cs_header_of_bytes (cs_header_bytes h @ rest) = h"
  by (simp add: cs_header_of_bytes_def cs_header_bytes_def get_put_le32)


section \<open>Properties of the receive loop\<close>

lemma cs_header_of_bytes_append:
  "CS_HEADER_SIZE \<le> length bs \<Longrightarrow> cs_header_of_bytes (bs @ rest) = cs_header_of_bytes bs"
  by (simp add: cs_header_of_bytes_def CS_HEADER_SIZE_def)

lemma unat_clamp_le:
  "M < 2 ^ 32 \<Longrightarrow> unat (cs_message_length (clamp_header M h)) \<le> M"
  by (simp add: clamp_header_def unat_of_nat)

lemma sys_select_stream:
  "sys_select s = (Inr n, s1) \<Longrightarrow> n \<noteq> 0 \<Longrightarrow> s1 = s"
  by (auto split: list.splits rd_event.splits)

lemma sys_read_stream:
  "sys_read s count = (Inr received, s2) \<Longrightarrow> received \<noteq> [] \<Longrightarrow>
   stream_bytes (rscript s) = received @ stream_bytes (rscript s2) \<and>
   length received \<le> count \<and> wscript s2 = wscript s \<and> wire s2 = wire s \<and>
   is_closed s2 = is_closed s"
  by (auto split: list.splits rd_event.splits if_splits)

lemma iteration_inv:
  assumes M: "M + CS_HEADER_SIZE < 2 ^ 32"
    and inv: "read_inv M st"
    and it: "esdm_rpcs_read_iteration M st s = (ctl, s')"
  shows "case ctl of
           Goto_out ret \<Rightarrow> True
         | Break st' \<Rightarrow> request_read M st' \<and>
             (\<exists>received. buf st' = buf st @ received \<and>
                stream_bytes (rscript s) = received @ stream_bytes (rscript s'))
         | Continue st' \<Rightarrow> read_inv M st' \<and>
             (\<exists>received. buf st' = buf st @ received \<and>
                stream_bytes (rscript s) = received @ stream_bytes (rscript s'))"
proof (cases "\<exists>ret. ctl = Goto_out ret")
  case True
  then show ?thesis by auto
next
  case False
  from it False obtain n s1 where sel: "sys_select s = (Inr n, s1)" and n: "n \<noteq> 0"
    by (auto simp: esdm_rpcs_read_iteration_def simp del: sys_select.simps sys_read.simps
             split: prod.splits sum.splits if_splits)
  from sys_select_stream [OF sel n] have s1: "s1 = s" .
  from it False sel n s1 obtain received
    where rd: "sys_read s (BUF_SIZE M - total_received st) = (Inr received, s')"
      and ne: "received \<noteq> []"
    by (auto simp: esdm_rpcs_read_iteration_def Let_def
             simp del: sys_select.simps sys_read.simps
             split: prod.splits sum.splits if_splits)
  from sys_read_stream [OF rd ne]
  have str: "stream_bytes (rscript s) = received @ stream_bytes (rscript s')"
    and len: "length received \<le> BUF_SIZE M - total_received st"
    by simp_all
  define st1 where "st1 = st\<lparr>total_received := total_received st + length received,
                              buf := buf st @ received\<rparr>"
  from inv len have st1_len: "length (buf st1) = total_received st1"
    "total_received st1 \<le> BUF_SIZE M" "total_received st < total_received st1"
    using ne by (auto simp: st1_def read_inv_def)
  have hdr_keep: "CS_HEADER_SIZE \<le> total_received st \<Longrightarrow>
      cs_header_of_bytes (buf st1) = cs_header_of_bytes (buf st)"
    using inv by (simp add: st1_def read_inv_def cs_header_of_bytes_append)
  have ctl0: "ctl = esdm_rpcs_read_received M st received"
    using it sel n s1 rd ne
    by (simp add: esdm_rpcs_read_iteration_def del: sys_select.simps sys_read.simps)
  have ctl: "ctl =
      (if total_received st1 < CS_HEADER_SIZE then Continue st1
       else if data_to_fetch st1 = 0 then
         (let h' = clamp_header M (cs_header_of_bytes (buf st1));
              st2 = st1\<lparr>header := h', data_to_fetch := unat (cs_message_length h')\<rparr>
          in if data_to_fetch st2 = 0 then Break st2
             else (let st3 = st2\<lparr>data_to_fetch :=
                                (data_to_fetch st2 + CS_HEADER_SIZE) mod 2 ^ 32\<rparr>
                   in if total_received st3 \<ge> data_to_fetch st3
                      then Break st3 else Continue st3))
       else if total_received st1 \<ge> data_to_fetch st1 then Break st1 else Continue st1)"
    unfolding ctl0 esdm_rpcs_read_received_def st1_def clamp_header_def Let_def ..
  have Mlt: "M < 2 ^ 32" using M by simp
  have clamp_small: "(unat (cs_message_length (clamp_header M h)) + CS_HEADER_SIZE) mod 2 ^ 32
      = unat (cs_message_length (clamp_header M h)) + CS_HEADER_SIZE" for h
    using unat_clamp_le [OF Mlt, of h] M by simp
  have bufs: "buf st1 = buf st @ received" by (simp add: st1_def)
  show ?thesis
  proof (cases "total_received st1 < CS_HEADER_SIZE")
    case True
    with ctl have "ctl = Continue st1" by simp
    moreover have "read_inv M st1"
      using True inv st1_len by (auto simp: read_inv_def st1_def split: if_splits)
    ultimately show ?thesis using bufs str by auto
  next
    case ge: False
    show ?thesis
    proof (cases "data_to_fetch st1 = 0")
      case True
      define h' where "h' = clamp_header M (cs_header_of_bytes (buf st1))"
      define st2 where "st2 = st1\<lparr>header := h', data_to_fetch := unat (cs_message_length h')\<rparr>"
      define st3 where "st3 = st2\<lparr>data_to_fetch := (data_to_fetch st2 + CS_HEADER_SIZE) mod 2 ^ 32\<rparr>"
      have d3: "data_to_fetch st3 = unat (cs_message_length h') + CS_HEADER_SIZE"
        using clamp_small [of "cs_header_of_bytes (buf st1)"]
        by (simp add: st3_def st2_def h'_def)
      have ctl': "ctl = (if data_to_fetch st2 = 0 then Break st2
                         else if total_received st3 \<ge> data_to_fetch st3 then Break st3
                         else Continue st3)"
        using ctl ge True by (simp add: Let_def st2_def st3_def h'_def)
      have b2: "buf st2 = buf st1" "buf st3 = buf st1"
        "total_received st2 = total_received st1" "total_received st3 = total_received st1"
        "header st2 = h'" "header st3 = h'"
        by (simp_all add: st2_def st3_def)
      show ?thesis
      proof (cases "data_to_fetch st2 = 0")
        case z: True
        then have "unat (cs_message_length h') = 0" by (simp add: st2_def)
        then have "request_read M st2"
          using ge st1_len b2 by (simp add: request_read_def h'_def)
        with ctl' z bufs str b2 show ?thesis by auto
      next
        case nz: False
        show ?thesis
        proof (cases "total_received st3 \<ge> data_to_fetch st3")
          case True
          then have "request_read M st3"
            using ge st1_len b2 d3 by (simp add: request_read_def h'_def)
          with ctl' nz True bufs str b2 show ?thesis by auto
        next
          case False
          then have "read_inv M st3"
            using ge st1_len b2 d3 by (auto simp: read_inv_def h'_def)
          with ctl' nz False bufs str b2 show ?thesis by auto
        qed
      qed
    next
      case nz: False
      then have nz0: "data_to_fetch st \<noteq> 0" by (simp add: st1_def)
      with inv have old: "CS_HEADER_SIZE \<le> total_received st"
        "header st = clamp_header M (cs_header_of_bytes (buf st))"
        "data_to_fetch st = unat (cs_message_length (header st)) + CS_HEADER_SIZE"
        by (auto simp: read_inv_def split: if_splits)
      have h1: "header st1 = clamp_header M (cs_header_of_bytes (buf st1))"
        "data_to_fetch st1 = unat (cs_message_length (header st1)) + CS_HEADER_SIZE"
        using old hdr_keep by (simp_all add: st1_def)
      show ?thesis
      proof (cases "total_received st1 \<ge> data_to_fetch st1")
        case True
        then have "request_read M st1"
          using ge st1_len h1 by (simp add: request_read_def)
        with ctl ge nz True bufs str show ?thesis by auto
      next
        case False
        then have "read_inv M st1"
          using ge st1_len h1 nz by (auto simp: read_inv_def)
        with ctl ge nz False bufs str show ?thesis by auto
      qed
    qed
  qed
qed


lemma read_inv_not_full:
  assumes M: "M + CS_HEADER_SIZE < 2 ^ 32" and inv: "read_inv M st"
  shows "total_received st < BUF_SIZE M"
proof (cases "data_to_fetch st = 0")
  case True
  with inv show ?thesis by (simp add: read_inv_def BUF_SIZE_def)
next
  case False
  have Mlt: "M < 2 ^ 32" using M by simp
  from False inv have h: "header st = clamp_header M (cs_header_of_bytes (buf st))"
    and lt: "total_received st < unat (cs_message_length (header st)) + CS_HEADER_SIZE"
    by (auto simp: read_inv_def)
  from unat_clamp_le [OF Mlt, of "cs_header_of_bytes (buf st)"] h lt
  show ?thesis by (simp add: BUF_SIZE_def)
qed

lemma read_loop_request:
  "M + CS_HEADER_SIZE < 2 ^ 32 \<Longrightarrow> read_inv M st \<Longrightarrow> esdm_rpcs_read_loop M st s = (None, st', s') \<Longrightarrow>
    request_read M st' \<and>
    (\<exists>received. buf st' = buf st @ received \<and>
       stream_bytes (rscript s) = received @ stream_bytes (rscript s'))"
proof (induction M st s rule: esdm_rpcs_read_loop.induct)
  case (1 M st s)
  obtain ctl s1 where it: "esdm_rpcs_read_iteration M st s = (ctl, s1)"
    by (cases "esdm_rpcs_read_iteration M st s")
  note step = iteration_inv [OF "1.prems"(1) "1.prems"(2) it]
  show ?case
  proof (cases ctl)
    case (Goto_out ret)
    with it "1.prems" show ?thesis
      by (simp add: esdm_rpcs_read_loop.simps [of M st s])
  next
    case (Break st2)
    with it "1.prems" have "st' = st2" "s' = s1"
      by (simp_all add: esdm_rpcs_read_loop.simps [of M st s])
    with step Break show ?thesis by simp
  next
    case (Continue st2)
    with step have inv2: "read_inv M st2"
      and rel: "\<exists>received. buf st2 = buf st @ received \<and>
                stream_bytes (rscript s) = received @ stream_bytes (rscript s1)"
      by simp_all
    show ?thesis
    proof (cases "total_received st2 < BUF_SIZE M")
      case True
      with it Continue "1.prems" have "esdm_rpcs_read_loop M st2 s1 = (None, st', s')"
        by (simp add: esdm_rpcs_read_loop.simps [of M st s])
      from "1.IH" [OF it [symmetric] Continue True "1.prems"(1) inv2 this] rel
      show ?thesis by auto
    next
      case False
      with it Continue "1.prems" have "st' = st2" "s' = s1"
        by (simp_all add: esdm_rpcs_read_loop.simps [of M st s])
      with read_inv_not_full [OF "1.prems"(1) inv2] False show ?thesis by simp
    qed
  qed
qed

lemma read_inv_init: "read_inv M read_state_init"
  by (simp add: read_inv_def read_state_init_def CS_HEADER_SIZE_def)

lemma sys_select_socket:
  "sys_select s = (r, s1) \<Longrightarrow>
   wscript s1 = wscript s \<and> wire s1 = wire s \<and> is_closed s1 = is_closed s"
  by (auto split: list.splits rd_event.splits)

lemma sys_read_socket:
  "sys_read s count = (r, s1) \<Longrightarrow>
   wscript s1 = wscript s \<and> wire s1 = wire s \<and> is_closed s1 = is_closed s"
  by (auto split: list.splits rd_event.splits)

lemma iteration_socket:
  "esdm_rpcs_read_iteration M st s = (ctl, s') \<Longrightarrow>
   wscript s' = wscript s \<and> wire s' = wire s \<and> is_closed s' = is_closed s"
  by (auto simp: esdm_rpcs_read_iteration_def simp del: sys_select.simps sys_read.simps
           split: prod.splits sum.splits if_splits
           dest!: sys_select_socket sys_read_socket)

lemma read_loop_socket:
  "esdm_rpcs_read_loop M st s = (r, st', s') \<Longrightarrow>
   wscript s' = wscript s \<and> wire s' = wire s \<and> is_closed s' = is_closed s"
proof (induction M st s rule: esdm_rpcs_read_loop.induct)
  case (1 M st s)
  obtain ctl s1 where it: "esdm_rpcs_read_iteration M st s = (ctl, s1)"
    by (cases "esdm_rpcs_read_iteration M st s")
  note sock = iteration_socket [OF it]
  show ?case
  proof (cases ctl)
    case (Goto_out ret)
    with it "1.prems" sock show ?thesis
      by (simp add: esdm_rpcs_read_loop.simps [of M st s])
  next
    case (Break st2)
    with it "1.prems" sock show ?thesis
      by (simp add: esdm_rpcs_read_loop.simps [of M st s])
  next
    case (Continue st2)
    show ?thesis
    proof (cases "total_received st2 < BUF_SIZE M")
      case True
      with it Continue "1.prems" have "esdm_rpcs_read_loop M st2 s1 = (r, st', s')"
        by (simp add: esdm_rpcs_read_loop.simps [of M st s])
      from "1.IH" [OF it [symmetric] Continue True this] sock show ?thesis by simp
    next
      case False
      with it Continue "1.prems" sock show ?thesis
        by (simp add: esdm_rpcs_read_loop.simps [of M st s])
    qed
  qed
qed


lemma received_bound:
  assumes "length (buf st) = total_received st" "total_received st \<le> BUF_SIZE M"
    and "length received \<le> BUF_SIZE M - total_received st"
    and "esdm_rpcs_read_received M st received = Break st' \<or>
         esdm_rpcs_read_received M st received = Continue st'"
  shows "length (buf st') = total_received st' \<and> total_received st' \<le> BUF_SIZE M"
  using assms
  by (auto simp: esdm_rpcs_read_received_def Let_def split: if_splits)

lemma sys_read_length:
  "sys_read s count = (Inr received, s') \<Longrightarrow> length received \<le> count"
  by (auto split: list.splits rd_event.splits)

lemma iteration_bound:
  assumes "length (buf st) = total_received st" "total_received st \<le> BUF_SIZE M"
    and "esdm_rpcs_read_iteration M st s = (ctl, s')"
    and "ctl = Break st' \<or> ctl = Continue st'"
  shows "length (buf st') = total_received st' \<and> total_received st' \<le> BUF_SIZE M"
proof -
  from assms(3,4) obtain s1 received where
    rd: "sys_read s1 (BUF_SIZE M - total_received st) = (Inr received, s')"
    and ctl: "ctl = esdm_rpcs_read_received M st received"
    by (auto simp: esdm_rpcs_read_iteration_def simp del: sys_select.simps sys_read.simps
             split: prod.splits sum.splits if_splits)
  from received_bound [OF assms(1,2) sys_read_length [OF rd]] ctl assms(4)
  show ?thesis by simp
qed

lemma read_loop_bound:
  "length (buf st) = total_received st \<Longrightarrow> total_received st \<le> BUF_SIZE M \<Longrightarrow>
   esdm_rpcs_read_loop M st s = (r, st', s') \<Longrightarrow>
   length (buf st') = total_received st' \<and> total_received st' \<le> BUF_SIZE M"
proof (induction M st s rule: esdm_rpcs_read_loop.induct)
  case (1 M st s)
  obtain ctl s1 where it: "esdm_rpcs_read_iteration M st s = (ctl, s1)"
    by (cases "esdm_rpcs_read_iteration M st s")
  show ?case
  proof (cases ctl)
    case (Goto_out ret)
    with it "1.prems" show ?thesis
      by (simp add: esdm_rpcs_read_loop.simps [of M st s])
  next
    case (Break st2)
    with it "1.prems" have "st' = st2"
      by (simp add: esdm_rpcs_read_loop.simps [of M st s])
    with iteration_bound [OF "1.prems"(1,2) it, of st2] Break show ?thesis by simp
  next
    case (Continue st2)
    from iteration_bound [OF "1.prems"(1,2) it, of st2] Continue
    have b2: "length (buf st2) = total_received st2" "total_received st2 \<le> BUF_SIZE M"
      by simp_all
    show ?thesis
    proof (cases "total_received st2 < BUF_SIZE M")
      case True
      with it Continue "1.prems" have "esdm_rpcs_read_loop M st2 s1 = (r, st', s')"
        by (simp add: esdm_rpcs_read_loop.simps [of M st s])
      from "1.IH" [OF it [symmetric] Continue True b2 this] show ?thesis .
    next
      case False
      with it Continue "1.prems" have "st' = st2"
        by (simp add: esdm_rpcs_read_loop.simps [of M st s])
      with b2 show ?thesis by simp
    qed
  qed
qed


text \<open>
  C9. Whatever the peer sends, and however the loop is left, the number of
  bytes stored in the receive buffer is \<open>total_received\<close> and is at most
  \<open>sizeof(header) + ESDM_RPC_MAX_MSG_SIZE\<close>, the size of the buffer: every read
  asks for at most the remaining capacity, and the loop condition stops at a
  full buffer.
\<close>

theorem receive_loop_within_buffer:
  "total_received (fst (snd (esdm_rpcs_read_loop M read_state_init s))) \<le> CS_HEADER_SIZE + M \<and>
   length (buf (fst (snd (esdm_rpcs_read_loop M read_state_init s)))) =
     total_received (fst (snd (esdm_rpcs_read_loop M read_state_init s)))"
proof -
  obtain r st' s' where l: "esdm_rpcs_read_loop M read_state_init s = (r, st', s')"
    by (cases "esdm_rpcs_read_loop M read_state_init s")
  have "length (buf read_state_init) = total_received read_state_init"
    "total_received read_state_init \<le> BUF_SIZE M"
    by (simp_all add: read_state_init_def)
  from read_loop_bound [OF this l] l show ?thesis by (simp add: BUF_SIZE_def)
qed


section \<open>Properties of the writer and the encoder\<close>

lemma write_data_no_short:
  assumes "no_short_writes s" and "esdm_rpcs_write_data c data s = (ret, s')"
  shows "no_short_writes s' \<and>
         (ret < 0 \<and> wire s' = wire s \<or> ret = 0 \<and> wire s' = wire s @ data)"
  using assms
  by (cases "wscript s")
     (auto simp: esdm_rpcs_write_data_def esdm_rpcs_write_loop.simps [of data 0 s]
                 no_short_writes_def EINVAL_def
           split: if_splits wr_event.splits)

lemma fold_append_no_short:
  "no_short_writes s \<Longrightarrow>
   no_short_writes (fold (esdm_rpcs_append_data c) chunks s) \<and>
   (\<exists>payload. wire (fold (esdm_rpcs_append_data c) chunks s) = wire s @ payload)"
proof (induction chunks arbitrary: s)
  case Nil
  then show ?case by simp
next
  case (Cons x xs)
  obtain r s1 where w: "esdm_rpcs_write_data c x s = (r, s1)"
    by (cases "esdm_rpcs_write_data c x s")
  from write_data_no_short [OF Cons.prems w]
  have ns: "no_short_writes s1" and "\<exists>p. wire s1 = wire s @ p" by auto
  with Cons.IH [OF ns] w show ?case
    by (auto simp: esdm_rpcs_append_data_def)
qed

lemma pack_no_short:
  assumes "no_short_writes s" and "esdm_rpcs_pack pb m c s = (ret, s')"
  shows "no_short_writes s' \<and>
         (wire s' = wire s \<or>
          (\<exists>h payload. wire s' = wire s @ sc_header_bytes h @ payload \<and>
             sc_method_index h = method_index c \<and> sc_request_id h = request_id c))"
proof (cases "protobuf_c_message_check pb m")
  case False
  with assms(2) have "esdm_rpcs_write_data c
          (sc_header_bytes
            \<lparr>sc_status_code = PROTOBUF_C_RPC_STATUS_CODE_SERVICE_FAILED,
             sc_method_index = method_index c,
             sc_message_length = 0,
             sc_request_id = request_id c\<rparr>) s = (ret, s')"
    by (simp add: esdm_rpcs_pack_def)
  from write_data_no_short [OF assms(1) this] show ?thesis
    by (metis append_Nil2 sc_header.select_convs(2,4))
next
  case True
  define h where "h = \<lparr>sc_status_code = PROTOBUF_C_RPC_STATUS_CODE_SUCCESS,
                sc_method_index = method_index c,
                sc_message_length = of_nat (protobuf_c_message_get_packed_size pb m),
                sc_request_id = request_id c\<rparr>"
  obtain r s1 where w: "esdm_rpcs_write_data c (sc_header_bytes h) s = (r, s1)"
    by (cases "esdm_rpcs_write_data c (sc_header_bytes h) s")
  from write_data_no_short [OF assms(1) w]
  have ns1: "no_short_writes s1"
    and alt: "r < 0 \<and> wire s1 = wire s \<or> r = 0 \<and> wire s1 = wire s @ sc_header_bytes h"
    by simp_all
  have hsel: "sc_method_index h = method_index c" "sc_request_id h = request_id c"
    by (simp_all add: h_def)
  show ?thesis
  proof (cases "r < 0")
    case neg: True
    with assms(2) True w have "s' = s1"
      by (simp add: esdm_rpcs_pack_def Let_def h_def CKINT_fails_def)
    with ns1 alt neg show ?thesis by auto
  next
    case nonneg: False
    with assms(2) True w have
      s': "s' = fold (esdm_rpcs_append_data c) (protobuf_c_message_pack_to_buffer pb m) s1"
      by (auto simp: esdm_rpcs_pack_def Let_def h_def CKINT_fails_def split: if_splits)
    from fold_append_no_short [OF ns1, of c "protobuf_c_message_pack_to_buffer pb m"] s'
    obtain payload where "no_short_writes s'" "wire s' = wire s1 @ payload" by auto
    with alt nonneg hsel show ?thesis by auto
  qed
qed

lemma fold_closure_no_short:
  "no_short_writes s \<Longrightarrow>
   no_short_writes (fold (esdm_rpcs_response_closure pb c) ms s) \<and>
   (\<exists>replies. wire (fold (esdm_rpcs_response_closure pb c) ms s) =
        wire s @ concat (map reply_frame replies) \<and>
      replies_for (method_index c) (request_id c) replies)"
proof (induction ms arbitrary: s)
  case Nil
  have "wire s = wire s @ concat (map reply_frame []) \<and>
      replies_for (method_index c) (request_id c) []"
    by (simp add: replies_for_def)
  then have "\<exists>replies. wire s = wire s @ concat (map reply_frame replies) \<and>
      replies_for (method_index c) (request_id c) replies" ..
  with Nil show ?case by simp
next
  case (Cons m ms)
  obtain r s1 where p: "esdm_rpcs_pack pb m c s = (r, s1)"
    by (cases "esdm_rpcs_pack pb m c s")
  from pack_no_short [OF Cons.prems p]
  have ns1: "no_short_writes s1"
    and alt: "wire s1 = wire s \<or>
          (\<exists>h payload. wire s1 = wire s @ sc_header_bytes h @ payload \<and>
             sc_method_index h = method_index c \<and> sc_request_id h = request_id c)"
    by simp_all
  have step: "fold (esdm_rpcs_response_closure pb c) (m # ms) s =
      fold (esdm_rpcs_response_closure pb c) ms s1"
    using p by (simp add: esdm_rpcs_response_closure_def)
  from Cons.IH [OF ns1] obtain replies where
    ns: "no_short_writes (fold (esdm_rpcs_response_closure pb c) ms s1)"
    and w: "wire (fold (esdm_rpcs_response_closure pb c) ms s1) =
        wire s1 @ concat (map reply_frame replies)"
    and ids: "replies_for (method_index c) (request_id c) replies"
    by blast
  have "\<exists>replies'. wire s1 @ concat (map reply_frame replies) =
        wire s @ concat (map reply_frame replies') \<and>
      replies_for (method_index c) (request_id c) replies'"
    using alt
  proof
    assume "wire s1 = wire s"
    with ids show ?thesis by blast
  next
    assume "\<exists>h payload. wire s1 = wire s @ sc_header_bytes h @ payload \<and>
             sc_method_index h = method_index c \<and> sc_request_id h = request_id c"
    then obtain h payload where w1: "wire s1 = wire s @ sc_header_bytes h @ payload"
      and hid: "sc_method_index h = method_index c" "sc_request_id h = request_id c"
      by blast
    have "wire s1 @ concat (map reply_frame replies) =
        wire s @ concat (map reply_frame ((h, payload) # replies))"
      using w1 by (simp add: reply_frame_def)
    moreover have "replies_for (method_index c) (request_id c) ((h, payload) # replies)"
      using ids hid by (simp add: replies_for_def)
    ultimately show ?thesis by blast
  qed
  with ns w show ?case unfolding step by simp
qed

lemma unpack_no_short:
  assumes "no_short_writes s"
    and "esdm_rpcs_unpack pb service c hdr data s = (ret, c', s')"
  shows "no_short_writes s' \<and>
    (\<exists>replies. wire s' = wire s @ concat (map reply_frame replies) \<and>
      replies_for (cs_method_index hdr) (cs_request_id hdr) replies)"
proof (cases "s' = s")
  case True
  have "wire s = wire s @ concat (map reply_frame []) \<and>
      replies_for (cs_method_index hdr) (cs_request_id hdr) []"
    by (simp add: replies_for_def)
  then have "\<exists>replies. wire s = wire s @ concat (map reply_frame replies) \<and>
      replies_for (cs_method_index hdr) (cs_request_id hdr) replies" ..
  with True assms(1) show ?thesis by simp
next
  case False
  define c1 where "c1 = c\<lparr>method_index := cs_method_index hdr, request_id := cs_request_id hdr\<rparr>"
  from False assms(2) obtain message where
    s': "s' = fold (esdm_rpcs_response_closure pb c1)
            (invoke service (cs_method_index hdr) message) s"
    by (auto simp: esdm_rpcs_unpack_def Let_def c1_def
             split: prod.splits if_splits option.splits)
  have c1: "method_index c1 = cs_method_index hdr" "request_id c1 = cs_request_id hdr"
    by (simp_all add: c1_def)
  from fold_closure_no_short [OF assms(1), of pb c1
      "invoke service (cs_method_index hdr) message"]
  show ?thesis unfolding s' c1 .
qed

lemma write_data_completes:
  assumes "0 \<le> child_fd c" and "next_write_completes s"
  shows "fst (esdm_rpcs_write_data c data s) = 0 \<and>
         wire (snd (esdm_rpcs_write_data c data s)) = wire s @ data"
  using assms
  by (cases "wscript s")
     (auto simp: esdm_rpcs_write_data_def esdm_rpcs_write_loop.simps [of data 0 s]
                 next_write_completes_def)

lemma unpack_ret:
  assumes "esdm_rpc_proto_get_descriptor service hdr = (ret, desc)" and "\<not> ret < 0"
    and "protobuf_c_message_unpack service desc (unat (cs_message_length hdr))
           (take (unat (cs_message_length hdr)) data) = Some request"
  shows "fst (esdm_rpcs_unpack pb service c hdr data s) = ret"
  using assms by (simp add: esdm_rpcs_unpack_def Let_def CKINT_fails_def)


text \<open>
  C5. The writer called on the three bytes 1, 2, 3, when the first \<open>write\<close>
  takes two bytes and the second takes all it is given: the loop calls
  \<open>write\<close> again with the same \<open>data\<close> and \<open>len\<close>, so the peer receives
  1, 2, 1, 2, 3 and the writer returns 0.
\<close>

theorem write_data_short_write_resends:
  "esdm_rpcs_write_data \<lparr>child_fd = 5, method_index = 0, request_id = 0\<rparr> [1, 2, 3]
     \<lparr>rscript = [], wscript = [Write_short 2], wire = [], is_closed = False\<rparr>
   = (0, \<lparr>rscript = [], wscript = [], wire = [1, 2, 1, 2, 3], is_closed = False\<rparr>)"
  by (simp add: esdm_rpcs_write_data_def esdm_rpcs_write_loop.simps)






text \<open>
  Every reply whose header goes out in one \<open>write\<close> starts on the wire with a
  header that carries the ids stored in the connection, whatever the writes
  of its payload do.
\<close>

lemma sys_write_wire:
  "sys_write s data = (r, s') \<Longrightarrow> \<exists>sent. wire s' = wire s @ sent"
  by (auto split: list.splits wr_event.splits)

lemma write_loop_wire:
  "esdm_rpcs_write_loop data written s = (r, s') \<Longrightarrow> \<exists>sent. wire s' = wire s @ sent"
proof (induction data written s rule: esdm_rpcs_write_loop.induct)
  case (1 data written s)
  obtain x s1 where w: "sys_write s data = (x, s1)"
    by (cases "sys_write s data")
  from sys_write_wire [OF w] obtain sent1 where s1: "wire s1 = wire s @ sent1" by blast
  show ?case
  proof (cases x)
    case (Inl e)
    with w "1.prems" have "s' = s1"
      by (simp add: esdm_rpcs_write_loop.simps [of data written s])
    with s1 show ?thesis by blast
  next
    case (Inr n)
    show ?thesis
    proof (cases "written + n < length data")
      case True
      with w Inr "1.prems" have "esdm_rpcs_write_loop data (written + n) s1 = (r, s')"
        by (simp add: esdm_rpcs_write_loop.simps [of data written s])
      from "1.IH" [OF w [symmetric] Inr refl True this] obtain sent2
        where "wire s' = wire s1 @ sent2" by blast
      with s1 have "wire s' = wire s @ (sent1 @ sent2)" by simp
      then show ?thesis by blast
    next
      case False
      with w Inr "1.prems" have "s' = s1"
        by (simp add: esdm_rpcs_write_loop.simps [of data written s])
      with s1 show ?thesis by blast
    qed
  qed
qed

lemma append_data_wire:
  "\<exists>sent. wire (esdm_rpcs_append_data c data s) = wire s @ sent"
proof (cases "child_fd c < 0")
  case True
  then have "wire (esdm_rpcs_append_data c data s) = wire s @ []"
    by (simp add: esdm_rpcs_append_data_def esdm_rpcs_write_data_def)
  then show ?thesis by blast
next
  case False
  obtain r s' where l: "esdm_rpcs_write_loop data 0 s = (r, s')"
    by (cases "esdm_rpcs_write_loop data 0 s")
  from write_loop_wire [OF l] False l show ?thesis
    by (simp add: esdm_rpcs_append_data_def esdm_rpcs_write_data_def)
qed

lemma fold_append_wire:
  "\<exists>sent. wire (fold (esdm_rpcs_append_data c) chunks s) = wire s @ sent"
proof (induction chunks arbitrary: s)
  case Nil
  have "wire s = wire s @ []" by simp
  then have "\<exists>sent. wire s = wire s @ sent" ..
  then show ?case by simp
next
  case (Cons x xs)
  from append_data_wire [of c x s] obtain sent1
    where a: "wire (esdm_rpcs_append_data c x s) = wire s @ sent1" by blast
  from Cons.IH [of "esdm_rpcs_append_data c x s"] obtain sent2
    where "wire (fold (esdm_rpcs_append_data c) xs (esdm_rpcs_append_data c x s)) =
      wire (esdm_rpcs_append_data c x s) @ sent2" by blast
  with a have "wire (fold (esdm_rpcs_append_data c) (x # xs) s) = wire s @ (sent1 @ sent2)"
    by simp
  then show ?case by blast
qed

lemma pack_header_on_wire:
  assumes "0 \<le> child_fd c" and "next_write_completes s"
  shows "\<exists>h payload.
     wire (snd (esdm_rpcs_pack pb m c s)) = wire s @ sc_header_bytes h @ payload \<and>
     sc_method_index h = method_index c \<and> sc_request_id h = request_id c"
proof (cases "protobuf_c_message_check pb m")
  case False
  define h where "h = \<lparr>sc_status_code = PROTOBUF_C_RPC_STATUS_CODE_SERVICE_FAILED,
             sc_method_index = method_index c, sc_message_length = 0,
             sc_request_id = request_id c\<rparr>"
  from False write_data_completes [OF assms, of "sc_header_bytes h"]
  have "wire (snd (esdm_rpcs_pack pb m c s)) = wire s @ sc_header_bytes h @ []"
    by (simp add: esdm_rpcs_pack_def h_def)
  moreover have "sc_method_index h = method_index c" "sc_request_id h = request_id c"
    by (simp_all add: h_def)
  ultimately show ?thesis by blast
next
  case True
  define h where "h = \<lparr>sc_status_code = PROTOBUF_C_RPC_STATUS_CODE_SUCCESS,
                sc_method_index = method_index c,
                sc_message_length = of_nat (protobuf_c_message_get_packed_size pb m),
                sc_request_id = request_id c\<rparr>"
  obtain r s1 where w: "esdm_rpcs_write_data c (sc_header_bytes h) s = (r, s1)"
    by (cases "esdm_rpcs_write_data c (sc_header_bytes h) s")
  from write_data_completes [OF assms, of "sc_header_bytes h"] w
  have r: "r = 0" and s1: "wire s1 = wire s @ sc_header_bytes h" by simp_all
  from fold_append_wire [of c "protobuf_c_message_pack_to_buffer pb m" s1] obtain payload
    where p: "wire (fold (esdm_rpcs_append_data c) (protobuf_c_message_pack_to_buffer pb m) s1) =
      wire s1 @ payload" by blast
  have "snd (esdm_rpcs_pack pb m c s) =
      fold (esdm_rpcs_append_data c) (protobuf_c_message_pack_to_buffer pb m) s1"
    using True w r by (simp add: esdm_rpcs_pack_def Let_def h_def CKINT_fails_def)
  with p s1 have "wire (snd (esdm_rpcs_pack pb m c s)) = wire s @ sc_header_bytes h @ payload"
    by simp
  moreover have "sc_method_index h = method_index c" "sc_request_id h = request_id c"
    by (simp_all add: h_def)
  ultimately show ?thesis by blast
qed

text \<open>
  The dispatcher and the encoder copy the ids of the request into every
  reply. One call of \<open>esdm_rpcs_read\<close> reads one request, whose header is
  the first 12 bytes the peer made available. When no write is short, all
  that the call puts on the wire is a sequence of replies, and the header of
  every one of them carries the method index and the request id of that
  request.
\<close>

lemma reply_ids_match_request:
  assumes "M + CS_HEADER_SIZE < 2 ^ 32" and "no_short_writes s"
    and "esdm_rpcs_read M pb service rpc_conn s = (ret, rpc_conn', s')"
  shows "\<exists>replies. wire s' = wire s @ concat (map reply_frame replies) \<and>
      replies_for (cs_method_index (cs_header_of_bytes (stream_bytes (rscript s))))
                  (cs_request_id (cs_header_of_bytes (stream_bytes (rscript s)))) replies"
proof -
  let ?R = "cs_header_of_bytes (stream_bytes (rscript s))"
  have none: "wire s' = wire s \<Longrightarrow> ?thesis"
  proof -
    assume "wire s' = wire s"
    then have "wire s' = wire s @ concat (map reply_frame []) \<and>
        replies_for (cs_method_index ?R) (cs_request_id ?R) []"
      by (simp add: replies_for_def)
    then show ?thesis ..
  qed
  show ?thesis
  proof (cases "child_fd rpc_conn < 0")
    case True
    with assms(3) have "s' = s" by (simp add: esdm_rpcs_read_def)
    then have "wire s' = wire s" by simp
    then show ?thesis by (rule none)
  next
    case fd: False
    obtain r st s1 where loop: "esdm_rpcs_read_loop M read_state_init s = (r, st, s1)"
      by (cases "esdm_rpcs_read_loop M read_state_init s")
    from read_loop_socket [OF loop]
    have sock: "wscript s1 = wscript s" "wire s1 = wire s" by simp_all
    show ?thesis
    proof (cases r)
      case (Some e)
      with assms(3) fd loop have "s' = s1" by (simp add: esdm_rpcs_read_def)
      with sock have "wire s' = wire s" by simp
      then show ?thesis by (rule none)
    next
      case None
      with assms(3) fd loop have
        u: "esdm_rpcs_unpack pb service rpc_conn (header st) (drop CS_HEADER_SIZE (buf st)) s1
            = (ret, rpc_conn', s')"
        by (simp add: esdm_rpcs_read_def)
      from read_loop_request [OF assms(1) read_inv_init] loop None
      have rr: "request_read M st"
        and "\<exists>received. buf st = buf read_state_init @ received \<and>
              stream_bytes (rscript s) = received @ stream_bytes (rscript s1)"
        by simp_all
      then have str: "stream_bytes (rscript s) = buf st @ stream_bytes (rscript s1)"
        by (simp add: read_state_init_def)
      from rr have "CS_HEADER_SIZE \<le> length (buf st)"
        and h: "header st = clamp_header M (cs_header_of_bytes (buf st))"
        by (simp_all add: request_read_def)
      then have "?R = cs_header_of_bytes (buf st)"
        by (simp add: str cs_header_of_bytes_append)
      with h have ids: "cs_method_index (header st) = cs_method_index ?R"
        "cs_request_id (header st) = cs_request_id ?R"
        by (simp_all add: clamp_header_def)
      have "no_short_writes s1" using assms(2) sock by (simp add: no_short_writes_def)
      from unpack_no_short [OF this u] sock ids show ?thesis by simp
    qed
  qed
qed

lemma reply_ids_match_request_example:
  "\<exists>replies.
     [0, 0, 0, 0, 3, 0, 0, 0, 1, 0, 0, 0, 42, 0, 0, 0, 1] = concat (map reply_frame replies) \<and>
     replies_for 3 42 replies"
  using reply_ids_match_request
    [where M = 65536
       and pb = "\<lparr>protobuf_c_message_check = (\<lambda>m. m \<noteq> (0::nat)),
           protobuf_c_message_get_packed_size = (\<lambda>m. 1),
           protobuf_c_message_pack_to_buffer = (\<lambda>m. [[of_nat m]])\<rparr>"
       and service = "\<lparr>esdm_rpc_proto_get_descriptor = (\<lambda>h. (0, ())),
           protobuf_c_message_unpack = (\<lambda>d n bs. Some (Suc n)),
           invoke = (\<lambda>i m. [m])\<rparr>"
       and rpc_conn = "\<lparr>child_fd = 5, method_index = 0, request_id = 0\<rparr>"
       and s = "\<lparr>rscript = [Data [3, 0, 0, 0, 0, 0, 0, 0, 42, 0, 0, 0]], wscript = [],
           wire = [], is_closed = False\<rparr>"
       and ret = 0
       and rpc_conn' = "\<lparr>child_fd = 5, method_index = 3, request_id = 42\<rparr>"
       and s' = "\<lparr>rscript = [], wscript = [],
           wire = [0, 0, 0, 0, 3, 0, 0, 0, 1, 0, 0, 0, 42, 0, 0, 0, 1], is_closed = False\<rparr>"]
  by (simp add: run_defs no_short_writes_def)

text \<open>
  C3. The same request, with method index 3 and request id 42, when the first
  \<open>write\<close> of the reply header takes two bytes and every later \<open>write\<close> takes
  all it is given. The encoder has built the header with the ids 3 and 42, but
  the writer's loop sends its first two bytes and then the whole header
  again, from the first byte: the call returns 0, and the reply on the wire
  begins with sixteen bytes that are not the header. Read as a reply header they carry the method index 196608 and the
  request id 2752512.
\<close>

theorem short_write_garbles_reply_header:
  "esdm_rpcs_read 65536
     \<lparr>protobuf_c_message_check = (\<lambda>m. m \<noteq> (0::nat)),
      protobuf_c_message_get_packed_size = (\<lambda>m. 1),
      protobuf_c_message_pack_to_buffer = (\<lambda>m. [[of_nat m]])\<rparr>
     \<lparr>esdm_rpc_proto_get_descriptor = (\<lambda>h. (0, ())),
      protobuf_c_message_unpack = (\<lambda>d n bs. Some (Suc n)),
      invoke = (\<lambda>i m. [m])\<rparr>
     \<lparr>child_fd = 5, method_index = 0, request_id = 0\<rparr>
     \<lparr>rscript = [Data [3, 0, 0, 0, 0, 0, 0, 0, 42, 0, 0, 0]], wscript = [Write_short 2],
      wire = [], is_closed = False\<rparr> =
   (0, \<lparr>child_fd = 5, method_index = 3, request_id = 42\<rparr>,
    \<lparr>rscript = [], wscript = [],
     wire = [0, 0, 0, 0, 0, 0, 3, 0, 0, 0, 1, 0, 0, 0, 42, 0, 0, 0, 1],
     is_closed = False\<rparr>) \<and>
   sc_header_of_bytes [0, 0, 0, 0, 0, 0, 3, 0, 0, 0, 1, 0, 0, 0, 42, 0, 0, 0, 1] =
     \<lparr>sc_status_code = 0, sc_method_index = 196608, sc_message_length = 65536,
      sc_request_id = 2752512\<rparr>"
  by (simp add: run_defs sc_header_of_bytes_def)


section \<open>Properties of reading and dispatching a request\<close>

text \<open>
  C2, as the code has it. When the receive loop ends with a request, its
  header \<open>R\<close> is the first 12 bytes the peer made available and \<open>L\<close> the
  length it declares. The header handed on has \<open>R\<close>'s method index and
  request id and the length \<open>min L M\<close>; the loop has taken at least the header
  and \<open>min L M\<close> payload bytes and at most its buffer's size from the stream,
  in order; the \<open>min L M\<close> bytes the deserializer reads are those that follow
  the header in the stream; and \<open>esdm_rpcs_read\<close> dispatches exactly this.
  Every read asks for all the room left in the buffer, so the loop may take
  more than \<open>min L M\<close> payload bytes.
\<close>

theorem read_loop_reads_request:
  assumes "M + CS_HEADER_SIZE < 2 ^ 32"
    and "esdm_rpcs_read_loop M read_state_init s = (None, st, s')"
    and "R = cs_header_of_bytes (stream_bytes (rscript s))"
    and "L = unat (cs_message_length R)"
  shows "cs_method_index (header st) = cs_method_index R \<and>
         cs_request_id (header st) = cs_request_id R \<and>
         unat (cs_message_length (header st)) = min L M \<and>
         stream_bytes (rscript s) = buf st @ stream_bytes (rscript s') \<and>
         CS_HEADER_SIZE + min L M \<le> length (buf st) \<and>
         length (buf st) \<le> CS_HEADER_SIZE + M \<and>
         take (min L M) (drop CS_HEADER_SIZE (buf st)) =
           take (min L M) (drop CS_HEADER_SIZE (stream_bytes (rscript s))) \<and>
         (0 \<le> child_fd rpc_conn \<longrightarrow>
            esdm_rpcs_read M pb service rpc_conn s =
              esdm_rpcs_unpack pb service rpc_conn (header st)
                (drop CS_HEADER_SIZE (buf st)) s')"
proof -
  have Mlt: "M < 2 ^ 32" using assms(1) by simp
  from read_loop_request [OF assms(1) read_inv_init assms(2)]
  have rr: "request_read M st"
    and "\<exists>received. buf st = buf read_state_init @ received \<and>
          stream_bytes (rscript s) = received @ stream_bytes (rscript s')"
    by simp_all
  then have str: "stream_bytes (rscript s) = buf st @ stream_bytes (rscript s')"
    by (simp add: read_state_init_def)
  from rr have len: "length (buf st) = total_received st"
    and hi: "total_received st \<le> BUF_SIZE M"
    and lo: "CS_HEADER_SIZE \<le> total_received st"
    and h: "header st = clamp_header M (cs_header_of_bytes (buf st))"
    and enough: "CS_HEADER_SIZE + unat (cs_message_length (header st)) \<le> total_received st"
    unfolding request_read_def by blast+
  have R: "R = cs_header_of_bytes (buf st)"
    using lo len by (simp add: assms(3) str cs_header_of_bytes_append)
  have ids: "cs_method_index (header st) = cs_method_index R"
    "cs_request_id (header st) = cs_request_id R"
    using h R by (simp_all add: clamp_header_def)
  have clamp: "unat (cs_message_length (header st)) = min L M"
    using h R Mlt by (auto simp: clamp_header_def assms(4) unat_of_nat)
  have data: "take (min L M) (drop CS_HEADER_SIZE (buf st)) =
      take (min L M) (drop CS_HEADER_SIZE (stream_bytes (rscript s)))"
    using enough len clamp lo by (simp add: str)
  have disp: "0 \<le> child_fd rpc_conn \<longrightarrow>
      esdm_rpcs_read M pb service rpc_conn s =
        esdm_rpcs_unpack pb service rpc_conn (header st) (drop CS_HEADER_SIZE (buf st)) s'"
    using assms(2) by (simp add: esdm_rpcs_read_def)
  from ids clamp str enough len hi data disp show ?thesis
    by (simp add: BUF_SIZE_def)
qed


theorem read_loop_reads_request_witness:
  "unat (cs_message_length
      (header \<lparr>total_received = 15, buf = [1, 0, 0, 0, 2, 0, 0, 0, 5, 0, 0, 0, 9, 8, 7],
         data_to_fetch = 14,
         header = \<lparr>cs_method_index = 1, cs_message_length = 2, cs_request_id = 5\<rparr>\<rparr>)) =
     min 2 65536 \<and>
   take (min 2 65536) (drop CS_HEADER_SIZE [1, 0, 0, 0, 2, 0, 0, 0, 5, 0, 0, 0, 9, 8, 7 :: byte]) =
     take (min 2 65536) (drop CS_HEADER_SIZE
       (stream_bytes [Data [1, 0, 0, 0, 2, 0, 0, 0, 5, 0, 0, 0, 9, 8, 7]]))"
proof -
  have M: "(65536::nat) + CS_HEADER_SIZE < 2 ^ 32"
    by (simp add: CS_HEADER_SIZE_def)
  have loop: "esdm_rpcs_read_loop 65536 read_state_init
      \<lparr>rscript = [Data [1, 0, 0, 0, 2, 0, 0, 0, 5, 0, 0, 0, 9, 8, 7]], wscript = [],
       wire = [], is_closed = False\<rparr> =
    (None,
     \<lparr>total_received = 15, buf = [1, 0, 0, 0, 2, 0, 0, 0, 5, 0, 0, 0, 9, 8, 7],
      data_to_fetch = 14,
      header = \<lparr>cs_method_index = 1, cs_message_length = 2, cs_request_id = 5\<rparr>\<rparr>,
     \<lparr>rscript = [], wscript = [], wire = [], is_closed = False\<rparr>)"
    by (simp add: run_defs)
  have R: "\<lparr>cs_method_index = 1, cs_message_length = 2, cs_request_id = 5\<rparr> =
      cs_header_of_bytes (stream_bytes (rscript
        \<lparr>rscript = [Data [1, 0, 0, 0, 2, 0, 0, 0, 5, 0, 0, 0, 9, 8, 7]], wscript = [],
         wire = [], is_closed = False\<rparr>))"
    by (simp add: cs_header_of_bytes_def get_le32_def)
  have L: "(2::nat) = unat (cs_message_length
      \<lparr>cs_method_index = 1, cs_message_length = 2, cs_request_id = 5\<rparr>)"
    by simp
  from read_loop_reads_request [OF M loop R L]
  show ?thesis by simp
qed

text \<open>
  C2 as stated fails: the peer sends a header that declares no payload and
  four more bytes behind it, all available to the first read. The loop stores
  16 bytes, not 12, and nothing is left on the connection for the next request.
\<close>

theorem read_consumes_beyond_declared_length:
  "esdm_rpcs_read_loop 65536 read_state_init
     \<lparr>rscript = [Data [0, 0, 0, 0, 0, 0, 0, 0, 42, 0, 0, 0, 1, 2, 3, 4]], wscript = [],
      wire = [], is_closed = False\<rparr> =
   (None,
    \<lparr>total_received = 16, buf = [0, 0, 0, 0, 0, 0, 0, 0, 42, 0, 0, 0, 1, 2, 3, 4],
     data_to_fetch = 0,
     header = \<lparr>cs_method_index = 0, cs_message_length = 0, cs_request_id = 42\<rparr>\<rparr>,
    \<lparr>rscript = [], wscript = [], wire = [], is_closed = False\<rparr>)"
  by (simp add: run_defs)

text \<open>
  C4, as the code has it. When a request has been read and
  \<open>esdm_rpc_proto_get_descriptor\<close> returns a negative value for it, or the
  deserializer returns \<open>NULL\<close>, \<open>esdm_rpcs_read\<close> returns that value or
  \<open>-ENOMEM\<close>, nothing is written to the peer, and the handler leaves its loop
  and closes the connection.
\<close>

theorem failed_dispatch_closes_connection:
  assumes "0 \<le> child_fd rpc_conn"
    and "esdm_rpcs_read_loop M read_state_init s = (None, st, s')"
    and "esdm_rpc_proto_get_descriptor service (header st) = (ret, desc)"
    and "ret < 0 \<or>
         protobuf_c_message_unpack service desc (unat (cs_message_length (header st)))
           (take (unat (cs_message_length (header st))) (drop CS_HEADER_SIZE (buf st))) = None"
  shows "esdm_rpcs_read M pb service rpc_conn s =
           (if ret < 0 then ret else - ENOMEM, rpc_conn, s') \<and>
         wire s' = wire s \<and>
         esdm_rpcs_handler M pb service rpc_conn s = (0, s'\<lparr>is_closed := True\<rparr>)"
proof -
  have rd: "esdm_rpcs_read M pb service rpc_conn s =
      (if ret < 0 then ret else - ENOMEM, rpc_conn, s')"
    using assms by (auto simp: esdm_rpcs_read_def esdm_rpcs_unpack_def CKINT_fails_def)
  have nz: "(if ret < 0 then ret else - ENOMEM) \<noteq> 0"
    by (simp add: ENOMEM_def)
  have "esdm_rpcs_handler M pb service rpc_conn s = (0, s'\<lparr>is_closed := True\<rparr>)"
    using rd nz by (simp add: esdm_rpcs_handler.simps [of M pb service rpc_conn s])
  with rd read_loop_socket [OF assms(2)] show ?thesis by simp
qed


theorem failed_dispatch_closes_connection_witness:
  "esdm_rpcs_handler 65536
     \<lparr>protobuf_c_message_check = (\<lambda>m. m \<noteq> (0::nat)),
      protobuf_c_message_get_packed_size = (\<lambda>m. 1),
      protobuf_c_message_pack_to_buffer = (\<lambda>m. [[of_nat m]])\<rparr>
     \<lparr>esdm_rpc_proto_get_descriptor = (\<lambda>h. (0, ())),
      protobuf_c_message_unpack = (\<lambda>d n bs. if n < 2 then Some (Suc n) else None),
      invoke = (\<lambda>i m. [m])\<rparr>
     \<lparr>child_fd = 5, method_index = 0, request_id = 0\<rparr>
     \<lparr>rscript = [Data [1, 0, 0, 0, 2, 0, 0, 0, 5, 0, 0, 0, 9, 8]], wscript = [], wire = [],
      is_closed = False\<rparr> =
   (0, \<lparr>rscript = [], wscript = [], wire = [], is_closed = True\<rparr>)"
  using failed_dispatch_closes_connection
    [where M = 65536
       and rpc_conn = "\<lparr>child_fd = 5, method_index = 0, request_id = 0\<rparr>"
       and s = "\<lparr>rscript = [Data [1, 0, 0, 0, 2, 0, 0, 0, 5, 0, 0, 0, 9, 8]], wscript = [],
           wire = [], is_closed = False\<rparr>"
       and st = "\<lparr>total_received = 14, buf = [1, 0, 0, 0, 2, 0, 0, 0, 5, 0, 0, 0, 9, 8],
           data_to_fetch = 14,
           header = \<lparr>cs_method_index = 1, cs_message_length = 2, cs_request_id = 5\<rparr>\<rparr>"
       and s' = "\<lparr>rscript = [], wscript = [], wire = [], is_closed = False\<rparr>"
       and service = "\<lparr>esdm_rpc_proto_get_descriptor = (\<lambda>h. (0, ())),
           protobuf_c_message_unpack = (\<lambda>d n bs. if n < 2 then Some (Suc n) else None),
           invoke = (\<lambda>i m. [m])\<rparr>"
       and ret = 0 and desc = "()"
       and pb = "\<lparr>protobuf_c_message_check = (\<lambda>m. m \<noteq> (0::nat)),
           protobuf_c_message_get_packed_size = (\<lambda>m. 1),
           protobuf_c_message_pack_to_buffer = (\<lambda>m. [[of_nat m]])\<rparr>"]
  by (simp add: run_defs)

text \<open>
  C4 as stated fails: a request for method 7 at a service whose lookup fails
  for that index. No byte is sent and the connection is closed.
\<close>

theorem unknown_method_gets_no_reply:
  "esdm_rpcs_handler 65536
     \<lparr>protobuf_c_message_check = (\<lambda>m. m \<noteq> (0::nat)),
      protobuf_c_message_get_packed_size = (\<lambda>m. 1),
      protobuf_c_message_pack_to_buffer = (\<lambda>m. [[of_nat m]])\<rparr>
     \<lparr>esdm_rpc_proto_get_descriptor =
        (\<lambda>h. if cs_method_index h < 2 then (0, ()) else (- 22, ())),
      protobuf_c_message_unpack = (\<lambda>d n bs. Some (Suc n)),
      invoke = (\<lambda>i m. [m])\<rparr>
     \<lparr>child_fd = 5, method_index = 0, request_id = 0\<rparr>
     \<lparr>rscript = [Data [7, 0, 0, 0, 0, 0, 0, 0, 42, 0, 0, 0]], wscript = [], wire = [],
      is_closed = False\<rparr> =
   (0, \<lparr>rscript = [], wscript = [], wire = [], is_closed = True\<rparr>)"
  by (simp add: run_defs esdm_rpcs_handler.simps)

section \<open>Properties of the listener\<close>

text \<open>
  C8. \<open>esdm_rpcs_start\<close> on a path that exists and is a socket, when the
  probe gets its descriptor: the first calls are \<open>stat\<close>, \<open>socket\<close>, the switch
  to non-blocking, \<open>connect\<close> on the path and \<open>close\<close>. If \<open>connect\<close> returned
  0 or failed with \<open>EINPROGRESS\<close>, no \<open>unlink\<close> of the path follows, the path
  is still there, and the listener fails: \<open>esdm_rpcs_start\<close> returns a negative
  value and leaves \<open>proto\<close> as it was (\<open>bind\<close> finds the address in use). In
  every other case the next call is \<open>unlink\<close> of the path, before the
  listener's own \<open>socket\<close> and \<open>bind\<close>.
\<close>

theorem stale_socket_probe:
  assumes "files w path = Some S_IFSOCK" and "0 \<le> probe_socket_ret env"
    and "\<forall>errno. socket_result env = Inl errno \<longrightarrow> 0 < errno"
    and "esdm_rpcs_start env (Some path) tcp_port proto w = (ret, proto', w')"
    and "probe = [Call_stat path, Call_socket (probe_socket_ret env),
                  Call_set_fd_nonblocking (probe_socket_ret env),
                  Call_connect (probe_socket_ret env) path,
                  Call_close (probe_socket_ret env)]"
  shows "if connect_errno env = None \<or> connect_errno env = Some EINPROGRESS
         then (\<exists>rest. calls w' = calls w @ probe @ rest \<and> Call_unlink path \<notin> set rest) \<and>
              files w' path = Some S_IFSOCK \<and> ret < 0 \<and> proto' = proto
         else (\<exists>rest. calls w' = calls w @ probe @ [Call_unlink path] @ rest)"
proof (cases "connect_errno env = None \<or> connect_errno env = Some EINPROGRESS")
  case True
  define w1 where "w1 = esdm_rpcs_stale_socket env path w"
  have w1: "calls w1 = calls w @ probe" "files w1 = files w"
    using assms(1,2) True
    by (auto simp: w1_def esdm_rpcs_stale_socket_def call_def Let_def assms(5))
  show ?thesis
  proof (cases "socket_result env")
    case (Inl errno)
    with assms(4) have "ret = - errno" "proto' = proto" "w' = call (Call_socket (- 1)) w1"
      by (simp_all add: esdm_rpcs_start_def w1_def)
    moreover from Inl assms(3) have "0 < errno" by simp
    ultimately show ?thesis using True w1 assms(1) by (simp add: call_def)
  next
    case (Inr fd)
    have b: "sys_bind env fd path (call (Call_socket fd) w1) =
        (Inl EADDRINUSE, call (Call_bind fd path) (call (Call_socket fd) w1))"
      using w1 assms(1) by (simp add: sys_bind_def call_def Let_def)
    with Inr assms(4) have "ret = - EADDRINUSE" "proto' = proto"
      "w' = call (Call_close fd) (call (Call_bind fd path) (call (Call_socket fd) w1))"
      by (simp_all add: esdm_rpcs_start_def w1_def [symmetric] Let_def)
    then show ?thesis using True w1 assms(1) by (simp add: call_def EADDRINUSE_def)
  qed
next
  case False
  define w1 where "w1 = esdm_rpcs_stale_socket env path w"
  have w1: "calls w1 = calls w @ probe @ [Call_unlink path]"
    using assms(1,2) False
    by (auto simp: w1_def esdm_rpcs_stale_socket_def sys_unlink_def call_def Let_def assms(5)
             split: option.splits)
  have "\<exists>rest. calls w' = calls w1 @ rest"
    using assms(4)
    by (auto simp: esdm_rpcs_start_def w1_def [symmetric] sys_bind_def call_def Let_def
             split: sum.splits option.splits prod.splits)
  with w1 False show ?thesis by auto
qed

theorem stale_socket_probe_witness:
  "\<exists>rest.
     calls (snd (snd (esdm_rpcs_start
        \<lparr>probe_socket_ret = 7, connect_errno = Some 111, unlink_errno = None,
         socket_result = Inr 8, bind_errno = None, listen_errno = None\<rparr>
        (Some ''/var/run/esdm-rpc-priv'') 0 \<lparr>server_listening_fd = 0\<rparr>
        \<lparr>files = [''/var/run/esdm-rpc-priv'' \<mapsto> S_IFSOCK], calls = []\<rparr>))) =
     [Call_stat ''/var/run/esdm-rpc-priv'', Call_socket 7, Call_set_fd_nonblocking 7,
      Call_connect 7 ''/var/run/esdm-rpc-priv'', Call_close 7,
      Call_unlink ''/var/run/esdm-rpc-priv''] @ rest"
proof -
  let ?env = "\<lparr>probe_socket_ret = 7, connect_errno = Some 111, unlink_errno = None,
         socket_result = Inr 8, bind_errno = None, listen_errno = None\<rparr>"
  let ?w = "\<lparr>files = [''/var/run/esdm-rpc-priv'' \<mapsto> S_IFSOCK], calls = []\<rparr>"
  let ?res = "esdm_rpcs_start ?env (Some ''/var/run/esdm-rpc-priv'') 0
                \<lparr>server_listening_fd = 0\<rparr> ?w"
  have f: "files ?w ''/var/run/esdm-rpc-priv'' = Some S_IFSOCK" by simp
  have p: "0 \<le> probe_socket_ret ?env" by simp
  have e: "\<forall>errno. socket_result ?env = Inl errno \<longrightarrow> 0 < errno" by simp
  have r: "?res = (fst ?res, fst (snd ?res), snd (snd ?res))" by simp
  from stale_socket_probe [OF f p e r refl]
  show ?thesis by (simp add: EINPROGRESS_def)
qed


text \<open>A stale socket file is replaced: nothing listens, the path is unlinked and bound again.\<close>

lemma stale_socket_recovery:
  "esdm_rpcs_start
        \<lparr>probe_socket_ret = 7, connect_errno = Some 111, unlink_errno = None,
         socket_result = Inr 8, bind_errno = None, listen_errno = None\<rparr>
        (Some ''/s'') 0 \<lparr>server_listening_fd = 0\<rparr>
        \<lparr>files = [''/s'' \<mapsto> S_IFSOCK], calls = []\<rparr> =
   (0, \<lparr>server_listening_fd = 8\<rparr>,
    \<lparr>files = [''/s'' \<mapsto> S_IFSOCK],
     calls = [Call_stat ''/s'', Call_socket 7, Call_set_fd_nonblocking 7,
      Call_connect 7 ''/s'', Call_close 7, Call_unlink ''/s'', Call_socket 8,
      Call_bind 8 ''/s'', Call_listen 8]\<rparr>)"
  by (simp add: esdm_rpcs_start_def esdm_rpcs_stale_socket_def sys_unlink_def sys_bind_def
        call_def Let_def EINPROGRESS_def)

section \<open>Properties of the supervisor\<close>

text \<open>
  C6. In the parent (\<open>thread_init\<close> succeeded, \<open>fork\<close> returned the child's
  pid) the cleanup follows the return of \<open>waitpid\<close> for the child. Whatever
  the calls of the cleanup return, it calls \<open>unlink\<close> on the unprivileged and
  on the privileged socket path, \<open>shmget\<close> with the key of the status segment
  and, when that gave an id, \<open>shmctl\<close> with \<open>IPC_RMID\<close> on it, and
  \<open>sem_unlink\<close> on the semaphore's name, in this order; and every call that
  failed is followed by a log entry.
\<close>

theorem cleanup_after_child_exit:
  assumes "\<not> thread_init_ret env < 0" and "0 < fork_ret env"
  shows "fst (esdm_rpc_server_init names env username) =
           [Thread_init (thread_init_ret env), Fork (fork_ret env),
            Set_server_pid (fork_ret env), Cleanup_signals Esdm_rpcs_cleanup_term,
            Waitpid (fork_ret env), Set_server_pid (- 1), Cleanup_signals SIG_DFL] @
           esdm_rpcs_cleanup names (cleanup_rets env) \<and>
         filter cleanup_call (esdm_rpcs_cleanup names (cleanup_rets env)) =
           [Unlink (ESDM_RPC_UNPRIV_SOCKET names) (unlink_unpriv_ret (cleanup_rets env)),
            Unlink (ESDM_RPC_PRIV_SOCKET names) (unlink_priv_ret (cleanup_rets env)),
            Shmget (ESDM_SHM_STATUS_KEY names) (shmget_ret (cleanup_rets env))] @
           (if shmget_ret (cleanup_rets env) < 0 then []
            else [Shmctl_rmid (shmget_ret (cleanup_rets env)) (shmctl_ret (cleanup_rets env))]) @
           [Sem_unlink (ESDM_SEM_NAME names) (sem_unlink_ret (cleanup_rets env))] \<and>
         failures_logged (esdm_rpcs_cleanup names (cleanup_rets env))"
  using assms
  by (simp add: esdm_rpc_server_init_def esdm_rpcs_cleanup_def CKINT_fails_def Let_def)


theorem cleanup_after_child_exit_witness:
  "filter cleanup_call
     (esdm_rpcs_cleanup
        \<lparr>ESDM_RPC_UNPRIV_SOCKET = ''/var/run/esdm-rpc-unpriv'',
         ESDM_RPC_PRIV_SOCKET = ''/var/run/esdm-rpc-priv'',
         ESDM_SHM_STATUS_KEY = 1122334455, ESDM_SEM_NAME = ''esdm-shm-status-semaphore''\<rparr>
        \<lparr>unlink_unpriv_ret = - 1, unlink_priv_ret = 0, shmget_ret = - 1, shmctl_ret = 0,
         sem_unlink_ret = - 1\<rparr>) =
   [Unlink ''/var/run/esdm-rpc-unpriv'' (- 1), Unlink ''/var/run/esdm-rpc-priv'' 0,
    Shmget 1122334455 (- 1), Sem_unlink ''esdm-shm-status-semaphore'' (- 1)] \<and>
   failures_logged
     (esdm_rpcs_cleanup
        \<lparr>ESDM_RPC_UNPRIV_SOCKET = ''/var/run/esdm-rpc-unpriv'',
         ESDM_RPC_PRIV_SOCKET = ''/var/run/esdm-rpc-priv'',
         ESDM_SHM_STATUS_KEY = 1122334455, ESDM_SEM_NAME = ''esdm-shm-status-semaphore''\<rparr>
        \<lparr>unlink_unpriv_ret = - 1, unlink_priv_ret = 0, shmget_ret = - 1, shmctl_ret = 0,
         sem_unlink_ret = - 1\<rparr>)"
  using cleanup_after_child_exit
    [where env = "\<lparr>thread_init_ret = 0, fork_ret = 4711,
        cleanup_rets = \<lparr>unlink_unpriv_ret = - 1, unlink_priv_ret = 0, shmget_ret = - 1,
          shmctl_ret = 0, sem_unlink_ret = - 1\<rparr>\<rparr>"
      and names = "\<lparr>ESDM_RPC_UNPRIV_SOCKET = ''/var/run/esdm-rpc-unpriv'',
         ESDM_RPC_PRIV_SOCKET = ''/var/run/esdm-rpc-priv'',
         ESDM_SHM_STATUS_KEY = 1122334455, ESDM_SEM_NAME = ''esdm-shm-status-semaphore''\<rparr>"]
  by simp

section \<open>Properties of the bootstrap\<close>

lemma boot_inv_init: "boot_inv user (server_process_init uid0)"
  by (simp add: boot_inv_def boot_part_def server_process_init_def)

lemma boot_part_unpriv: "boot_part user (p\<lparr>unpriv := x\<rparr>) = boot_part user p"
  by (simp add: boot_part_def)

lemma unpriv_update_inv:
  assumes "boot_inv user p" and "x = U_workerloop \<longrightarrow> proc_uid p \<noteq> 0"
  shows "boot_inv user (p\<lparr>unpriv := x\<rparr>)"
  using assms by (simp add: boot_inv_def boot_part_unpriv)

lemma unpriv_step_inv:
  assumes "boot_inv user p" and "unpriv_step r p = Some p'"
  shows "boot_inv user p'"
proof -
  have woken: "init_wait_woken p \<Longrightarrow> proc_uid p \<noteq> 0"
    using assms(1) unfolding boot_inv_def boot_part_def by simp
  show ?thesis
  proof (cases "unpriv p")
    case U_not_started
    with assms(2) show ?thesis by (simp add: unpriv_step_def)
  next
    case U_start
    with assms(2) have "p' = p\<lparr>unpriv := (if CKINT_fails r then U_out r else U_chmod)\<rparr>"
      by (simp add: unpriv_step_def)
    then show ?thesis using unpriv_update_inv [OF assms(1)] by simp
  next
    case U_chmod
    with assms(2) have "p' = p\<lparr>unpriv := (if r < 0 then U_out r else U_wait)\<rparr>"
      by (simp add: unpriv_step_def)
    then show ?thesis using unpriv_update_inv [OF assms(1)] by simp
  next
    case U_wait
    with assms(2) have "p' = p\<lparr>unpriv := U_workerloop\<rparr>"
      and "proc_uid p \<noteq> 0 \<or> init_wait_woken p"
      by (simp_all add: unpriv_step_def split: if_splits)
    with woken show ?thesis using unpriv_update_inv [OF assms(1)] by blast
  next
    case U_workerloop
    with assms(2) have "p' = p \<or> p' = p\<lparr>unpriv := U_out r\<rparr>"
      by (simp add: unpriv_step_def split: if_splits)
    then show ?thesis using unpriv_update_inv [OF assms(1)] assms(1) by auto
  next
    case (U_out ret)
    with assms(2) have "p' = p\<lparr>unpriv := U_returned ret\<rparr>"
      by (simp add: unpriv_step_def)
    then show ?thesis using unpriv_update_inv [OF assms(1)] by simp
  next
    case (U_returned ret)
    with assms(2) show ?thesis by (simp add: unpriv_step_def)
  qed
qed

lemma boot_step_part:
  assumes "boot_part (case username of Some name \<Rightarrow> name | None \<Rightarrow> ''nobody'') p"
    and "boot_step username account_uid r p = Some p'"
  shows "boot_part (case username of Some name \<Rightarrow> name | None \<Rightarrow> ''nobody'') p'"
proof (cases "boot p")
  case B_start
  with assms show ?thesis
    by (auto simp: boot_step_def boot_part_def split: if_splits)
next
  case B_chmod
  with assms show ?thesis
    by (auto simp: boot_step_def boot_part_def split: if_splits)
next
  case B_spawn
  with assms show ?thesis
    by (auto simp: boot_step_def boot_part_def split: if_splits)
next
  case B_drop
  with assms show ?thesis
    by (auto simp: boot_step_def boot_part_def CKINT_fails_def Let_def split: if_splits)
next
  case B_wake
  with assms show ?thesis
    by (auto simp: boot_step_def boot_part_def)
next
  case B_workerloop
  with assms show ?thesis
    by (auto simp: boot_step_def boot_part_def split: if_splits)
next
  case (B_out ret)
  with assms show ?thesis
    by (auto simp: boot_step_def boot_part_def)
next
  case (B_returned ret)
  with assms show ?thesis by (simp add: boot_step_def)
qed

lemma boot_step_unpriv:
  assumes "boot_step username account_uid r p = Some p'"
  shows "unpriv p' = U_workerloop \<longrightarrow> unpriv p = U_workerloop"
  using assms
  by (cases "boot p") (auto simp: boot_step_def Let_def split: if_splits)

lemma boot_step_uid:
  assumes "boot_step username account_uid r p = Some p'"
  shows "proc_uid p \<noteq> 0 \<longrightarrow> proc_uid p' \<noteq> 0"
  using assms
  by (cases "boot p") (auto simp: boot_step_def Let_def split: if_splits)

lemma boot_step_inv:
  assumes "boot_inv (case username of Some name \<Rightarrow> name | None \<Rightarrow> ''nobody'') p"
    and "boot_step username account_uid r p = Some p'"
  shows "boot_inv (case username of Some name \<Rightarrow> name | None \<Rightarrow> ''nobody'') p'"
  using assms boot_step_part [OF _ assms(2)] boot_step_unpriv [OF assms(2)]
    boot_step_uid [OF assms(2)]
  unfolding boot_inv_def by blast

lemma run_inv:
  "boot_inv (case username of Some name \<Rightarrow> name | None \<Rightarrow> ''nobody'') p \<Longrightarrow>
   run username account_uid as p = Some p' \<Longrightarrow>
   boot_inv (case username of Some name \<Rightarrow> name | None \<Rightarrow> ''nobody'') p'"
proof (induction as arbitrary: p)
  case Nil
  then show ?case by simp
next
  case (Cons a as)
  from Cons.prems(2) obtain p1 where
    e: "exec username account_uid a p = Some p1" and r: "run username account_uid as p1 = Some p'"
    by (auto split: option.splits)
  have "boot_inv (case username of Some name \<Rightarrow> name | None \<Rightarrow> ''nobody'') p1"
  proof (cases a)
    case (Boot r)
    with e have "boot_step username account_uid r p = Some p1" by simp
    from boot_step_inv [OF Cons.prems(1) this] show ?thesis .
  next
    case (Unpriv r)
    with e have "unpriv_step r p = Some p1" by simp
    from unpriv_step_inv [OF Cons.prems(1) this] show ?thesis .
  qed
  from Cons.IH [OF this r] show ?case .
qed


text \<open>
  C1. In every state that the server process reaches, however the two threads
  are interleaved and whatever their calls return: if the wait queue has been
  woken, then \<open>drop_privileges_permanent\<close> has been called with the given user
  name (\<open>nobody\<close> when none is given) and has returned without error, and the
  process is not root; if the drop has failed, the queue has not been woken
  and the bootstrap is at \<open>out\<close> or has returned, with the drop's negative
  value as \<open>ret\<close>; and the unprivileged thread is in its accept loop, where
  handler threads are started, only when the process is not root.
\<close>

theorem barrier_released_after_drop:
  assumes "run username account_uid as (server_process_init uid0) = Some p"
    and "user = (case username of Some name \<Rightarrow> name | None \<Rightarrow> ''nobody'')"
  shows "(init_wait_woken p \<longrightarrow>
            (\<exists>r. drop_called p = Some (user, r) \<and> 0 \<le> r) \<and> proc_uid p \<noteq> 0) \<and>
         (\<forall>r. drop_called p = Some (user, r) \<and> r < 0 \<longrightarrow>
            \<not> init_wait_woken p \<and> (boot p = B_out r \<or> boot p = B_returned r)) \<and>
         (unpriv p = U_workerloop \<longrightarrow> proc_uid p \<noteq> 0)"
proof -
  from run_inv [OF boot_inv_init assms(1)]
  have "boot_inv user p" by (simp add: assms(2))
  then show ?thesis unfolding boot_inv_def boot_part_def by blast
qed

theorem barrier_released_after_drop_witness:
  "run None 65534
     [Boot 0, Boot 0, Boot 0, Unpriv 0, Unpriv 0, Boot 0, Boot 0, Unpriv 0]
     (server_process_init 0) =
   Some \<lparr>proc_uid = 65534, init_wait_woken = True, boot = B_workerloop,
         unpriv = U_workerloop, drop_called = Some (''nobody'', 0)\<rparr> \<and>
   (\<exists>r. Some (''nobody'', 0::int) = Some (''nobody'', r) \<and> 0 \<le> r) \<and>
   (65534::nat) \<noteq> 0"
proof -
  have r: "run None 65534
     [Boot 0, Boot 0, Boot 0, Unpriv 0, Unpriv 0, Boot 0, Boot 0, Unpriv 0]
     (server_process_init 0) =
   Some \<lparr>proc_uid = 65534, init_wait_woken = True, boot = B_workerloop,
         unpriv = U_workerloop, drop_called = Some (''nobody'', 0)\<rparr>"
    by (simp add: server_process_init_def boot_step_def unpriv_step_def CKINT_fails_def)
  have u: "''nobody'' = (case None :: string option of Some name \<Rightarrow> name | None \<Rightarrow> ''nobody'')"
    by simp
  from barrier_released_after_drop [OF r u] r
  show ?thesis by simp
qed


text \<open>
  The process never becomes root again: the handler threads that the accept
  loops have started keep running without root privileges.
\<close>

lemma unpriv_step_uid:
  "unpriv_step r p = Some p' \<Longrightarrow> proc_uid p' = proc_uid p"
  by (cases "unpriv p") (auto simp: unpriv_step_def split: if_splits)

lemma run_uid_stays_unprivileged:
  "run username account_uid as p = Some p' \<Longrightarrow> proc_uid p \<noteq> 0 \<Longrightarrow> proc_uid p' \<noteq> 0"
proof (induction as arbitrary: p)
  case Nil
  then show ?case by simp
next
  case (Cons a as)
  from Cons.prems(1) obtain p1 where
    e: "exec username account_uid a p = Some p1" and r: "run username account_uid as p1 = Some p'"
    by (auto split: option.splits)
  have "proc_uid p1 \<noteq> 0"
  proof (cases a)
    case (Boot r)
    with e have "boot_step username account_uid r p = Some p1" by simp
    from boot_step_uid [OF this] Cons.prems(2) show ?thesis by simp
  next
    case (Unpriv r)
    with e have "unpriv_step r p = Some p1" by simp
    from unpriv_step_uid [OF this] Cons.prems(2) show ?thesis by simp
  qed
  from Cons.IH [OF r this] show ?case .
qed

text \<open>
  Two runs from root: before the drop the unprivileged thread cannot pass
  \<open>thread_wait_event\<close>; after a failed drop the bootstrap has returned the
  error and the thread is still waiting.
\<close>

lemma unprivileged_thread_waits_for_drop:
  "run None 65534 [Boot 0, Boot 0, Boot 0, Unpriv 0, Unpriv 0, Unpriv 0]
     (server_process_init 0) = None"
  by (simp add: server_process_init_def boot_step_def unpriv_step_def CKINT_fails_def)

lemma failed_drop_aborts:
  "run (Some ''esdm'') 65534
     [Boot 0, Boot 0, Boot 0, Unpriv 0, Unpriv 0, Boot (- 1), Boot 0]
     (server_process_init 0) =
   Some \<lparr>proc_uid = 0, init_wait_woken = False, boot = B_returned (- 1),
         unpriv = U_wait, drop_called = Some (''esdm'', - 1)\<rparr>"
  by (simp add: server_process_init_def boot_step_def unpriv_step_def CKINT_fails_def)

section \<open>Properties of the access guard\<close>

text \<open>
  C10. The privilege check fails closed: when the peer credentials cannot be
  obtained (\<open>getsockopt\<close> with \<open>SO_PEERCRED\<close> fails) the function returns false,
  and it returns true exactly when the credentials were obtained and the peer
  uid is 0.
\<close>

theorem is_privileged_fails_closed:
  "esdm_rpc_client_is_privileged (Getsockopt_failed errno) = False \<and>
   esdm_rpc_client_is_privileged (Getsockopt_ok cred) = (uid cred = 0) \<and>
   esdm_rpc_client_is_privileged r =
     (case r of Getsockopt_failed e \<Rightarrow> False | Getsockopt_ok c \<Rightarrow> uid c = 0)"
  by (cases r) simp_all

end
